theory Spec2Isabelle
  imports Complex_Main "HOL-Library.Word"
begin

unbundle bit_operations_syntax

section \<open>Text and numbers of the platform\<close>

text \<open>
  Strings are modelled as \<^typ>\<open>string\<close>: the list of the bytes of the text in UTF-8.
  JavaScript numbers that hold heights and output indices are modelled as \<^typ>\<open>int\<close>;
  numbers that hold amounts are modelled as exact rationals (\<^typ>\<open>rat\<close>), so the
  rounding error of binary floating point is not part of the model.
\<close>

subsection \<open>SHA-256\<close>

text \<open>
  \<^verbatim>\<open>crypto.subtle.digest('SHA-256', buffer)\<close> is a function of the platform. It is
  written out here after FIPS 180-4, on 32-bit words, so that block identifiers are
  concrete values.
\<close>

type_synonym byte = "8 word"
type_synonym u32 = "32 word"

definition rotr :: "nat \<Rightarrow> u32 \<Rightarrow> u32" where
  "rotr n x = drop_bit n x OR push_bit (32 - n) x"

definition ch :: "u32 \<Rightarrow> u32 \<Rightarrow> u32 \<Rightarrow> u32" where
  "ch x y z = (x AND y) XOR (NOT x AND z)"

definition maj :: "u32 \<Rightarrow> u32 \<Rightarrow> u32 \<Rightarrow> u32" where
  "maj x y z = (x AND y) XOR (x AND z) XOR (y AND z)"

definition bsig0 :: "u32 \<Rightarrow> u32" where
  "bsig0 x = rotr 2 x XOR rotr 13 x XOR rotr 22 x"

definition bsig1 :: "u32 \<Rightarrow> u32" where
  "bsig1 x = rotr 6 x XOR rotr 11 x XOR rotr 25 x"

definition ssig0 :: "u32 \<Rightarrow> u32" where
  "ssig0 x = rotr 7 x XOR rotr 18 x XOR drop_bit 3 x"

definition ssig1 :: "u32 \<Rightarrow> u32" where
  "ssig1 x = rotr 17 x XOR rotr 19 x XOR drop_bit 10 x"

definition sha256_k :: "u32 list" where
  "sha256_k =
    [1116352408, 1899447441, 3049323471, 3921009573, 961987163, 1508970993,
     2453635748, 2870763221, 3624381080, 310598401, 607225278, 1426881987,
     1925078388, 2162078206, 2614888103, 3248222580, 3835390401, 4022224774,
     264347078, 604807628, 770255983, 1249150122, 1555081692, 1996064986,
     2554220882, 2821834349, 2952996808, 3210313671, 3336571891, 3584528711,
     113926993, 338241895, 666307205, 773529912, 1294757372, 1396182291,
     1695183700, 1986661051, 2177026350, 2456956037, 2730485921, 2820302411,
     3259730800, 3345764771, 3516065817, 3600352804, 4094571909, 275423344,
     430227734, 506948616, 659060556, 883997877, 958139571, 1322822218,
     1537002063, 1747873779, 1955562222, 2024104815, 2227730452, 2361852424,
     2428436474, 2756734187, 3204031479, 3329325298]"

definition sha256_init :: "u32 list" where
  "sha256_init =
    [1779033703, 3144134277, 1013904242, 2773480762,
     1359893119, 2600822924, 528734635, 1541459225]"

definition be_bytes :: "nat \<Rightarrow> 'a::len word \<Rightarrow> byte list" where
  "be_bytes k w = map (\<lambda>i. ucast (drop_bit (8 * (k - 1 - i)) w)) [0..<k]"

definition sha256_pad :: "byte list \<Rightarrow> byte list" where
  "sha256_pad m =
     m @ [128] @ replicate ((119 - length m mod 64) mod 64) 0 @ be_bytes 8 (word_of_nat (8 * length m) :: 64 word)"

definition be_word :: "byte list \<Rightarrow> u32" where
  "be_word bs = foldl (\<lambda>a b. push_bit 8 a OR ucast b) 0 bs"

definition block_words :: "byte list \<Rightarrow> u32 list" where
  "block_words bl = map (\<lambda>i. be_word (take 4 (drop (4 * i) bl))) [0..<16]"

fun schedule :: "nat \<Rightarrow> u32 list \<Rightarrow> u32 list" where
  "schedule 0 w = w"
| "schedule (Suc n) w =
     (let t = length w
      in schedule n (w @ [ssig1 (w ! (t - 2)) + w ! (t - 7) + ssig0 (w ! (t - 15)) + w ! (t - 16)]))"

definition sha256_round :: "u32 list \<Rightarrow> u32 \<times> u32 \<Rightarrow> u32 list" where
  "sha256_round s kw =
     (case s of
        [a, b, c, d, e, f, g, h] \<Rightarrow>
          (let t1 = h + bsig1 e + ch e f g + fst kw + snd kw;
               t2 = bsig0 a + maj a b c
           in [t1 + t2, a, b, c, d + t1, e, f, g])
      | _ \<Rightarrow> s)"

definition sha256_block :: "u32 list \<Rightarrow> byte list \<Rightarrow> u32 list" where
  "sha256_block hs bl =
     map2 (+) hs (foldl sha256_round hs (zip sha256_k (schedule 48 (block_words bl))))"

definition sha256 :: "byte list \<Rightarrow> byte list" where
  "sha256 m =
     (let p = sha256_pad m;
          bls = map (\<lambda>i. take 64 (drop (64 * i) p)) [0..<length p div 64]
      in concat (map (\<lambda>w. be_bytes 4 w) (foldl sha256_block sha256_init bls)))"


subsection \<open>Number to text\<close>

text \<open>
  \<^verbatim>\<open>n.toString(radix)\<close> on a non-negative integer: the digits of \<open>n\<close>, most
  significant first, no leading zero, letters in lower case.
\<close>

definition digitChar :: "nat \<Rightarrow> char" where
  "digitChar d = (if d < 10 then char_of (48 + d) else char_of (87 + d))"

fun natToString :: "nat \<Rightarrow> nat \<Rightarrow> string" where
  "natToString radix n =
     (if radix < 2 \<or> n < radix then [digitChar n]
      else natToString radix (n div radix) @ [digitChar (n mod radix)])"

declare natToString.simps [simp del]

text \<open>\<^verbatim>\<open>height.toString()\<close> and \<^verbatim>\<open>`${index}`\<close> on an integer.\<close>

definition toString :: "int \<Rightarrow> string" where
  "toString i = (if i < 0 then CHR ''-'' # natToString 10 (nat (- i)) else natToString 10 (nat i))"

text \<open>\<^verbatim>\<open>s.padStart(n, c)\<close> for a one-character pad string.\<close>

definition padStart :: "nat \<Rightarrow> char \<Rightarrow> string \<Rightarrow> string" where
  "padStart n c s = replicate (n - length s) c @ s"

text \<open>\<^verbatim>\<open>new TextEncoder().encode(data)\<close>: the bytes of the text.\<close>

definition encode :: "string \<Rightarrow> byte list" where
  "encode s = map of_char s"

subsection \<open>utils: calculateBlockHash and parseValue\<close>

definition calculateBlockHash :: "int \<Rightarrow> string list \<Rightarrow> string" where
  "calculateBlockHash height transactionIds =
     (let data = toString height @ concat transactionIds;
          buffer = encode data;
          hashArray = sha256 buffer;
          hashHex = concat (map (\<lambda>b. padStart 2 (CHR ''0'') (natToString 16 (unat b))) hashArray)
      in hashHex)"

text \<open>
  \<^verbatim>\<open>parseValue(value)\<close>: \<^verbatim>\<open>Number(value)\<close>, and 0 when that is NaN. The argument is
  the outcome of \<^verbatim>\<open>Number(value)\<close>, with \<open>None\<close> for NaN.
\<close>

definition parseValue :: "rat option \<Rightarrow> rat" where
  "parseValue num = (case num of None \<Rightarrow> 0 | Some n \<Rightarrow> n)"

text \<open>
  \<^verbatim>\<open>Number(x.toFixed(8))\<close>: \<open>x\<close> to the nearest multiple of \<open>10\<^sup>-\<^sup>8\<close>, a tie going away
  from zero.
\<close>

definition roundHalfAway :: "rat \<Rightarrow> int" where
  "roundHalfAway x = (if x < 0 then - \<lfloor>- x + 1 / 2\<rfloor> else \<lfloor>x + 1 / 2\<rfloor>)"

definition toFixed8 :: "rat \<Rightarrow> rat" where
  "toFixed8 x = of_int (roundHalfAway (x * 100000000)) / 100000000"

section \<open>Data model\<close>

text \<open>
  The types of \<^verbatim>\<open>utils\<close>. Fields \<^verbatim>\<open>address\<close> and \<^verbatim>\<open>value\<close> of an output are
  \<open>o_address\<close> and \<open>o_value\<close>, \<^verbatim>\<open>id\<close> is \<open>t_id\<close> and \<open>b_id\<close>, \<^verbatim>\<open>height\<close> is \<open>b_height\<close>.
\<close>

record Output =
  o_address :: string
  o_value :: rat

record Input =
  txId :: string
  index :: int

record Transaction =
  t_id :: string
  inputs :: "Input list"
  outputs :: "Output list"

record Block =
  b_id :: string
  b_height :: int
  transactions :: "Transaction list"

text \<open>
  The two tables of \<^verbatim>\<open>createTables\<close>, a row a record and a table the list of its rows.
  Column \<^verbatim>\<open>value\<close> of \<^verbatim>\<open>utxos\<close> is \<open>u_value\<close>; columns \<^verbatim>\<open>height\<close> and \<^verbatim>\<open>id\<close> of
  \<^verbatim>\<open>blocks\<close> are \<open>r_height\<close> and \<open>r_id\<close>. A NULL \<^verbatim>\<open>spent_tx_id\<close> is \<open>None\<close>.
\<close>

record block_row =
  r_height :: int
  r_id :: string
  transaction_ids :: "string list"

record utxo_row =
  tx_id :: string
  output_index :: int
  address :: string
  u_value :: rat
  block_height :: int
  spent_tx_id :: "string option"

record db =
  blocks :: "block_row list"
  utxos :: "utxo_row list"

definition emptyDb :: db where
  "emptyDb = \<lparr>blocks = [], utxos = []\<rparr>"

datatype error =
    InvalidHeight
  | InvalidHash
  | MissingUtxo
  | AlreadySpent
  | ValueMismatch
  | NegativeTarget
  | StorageError

section \<open>Storage\<close>

text \<open>
  The statements the code sends, by their relational meaning. A statement that violates
  a constraint of the schema (primary key, UNIQUE, the range of INTEGER, the precision of
  NUMERIC(20, 8)) raises, which is \<open>None\<close> here; the caller turns it into
  \<^const>\<open>StorageError\<close>.
\<close>

definition int4 :: "int \<Rightarrow> bool" where
  "int4 i \<longleftrightarrow> - 2147483648 \<le> i \<and> i \<le> 2147483647"

text \<open>A value stored in a NUMERIC(20, 8) column: rounded to 8 fractional digits, at most
  12 digits before the point.\<close>

definition numeric_20_8 :: "rat \<Rightarrow> rat option" where
  "numeric_20_8 x = (let r = toFixed8 x in if \<bar>r\<bar> < 1000000000000 then Some r else None)"

text \<open>\<^verbatim>\<open>SELECT MAX(height) FROM blocks\<close>: NULL on the empty table.\<close>

fun sqlMax :: "int list \<Rightarrow> int option" where
  "sqlMax [] = None"
| "sqlMax (x # xs) = (case sqlMax xs of None \<Rightarrow> Some x | Some m \<Rightarrow> Some (max x m))"

definition getCurrentHeight :: "db \<Rightarrow> int" where
  "getCurrentHeight d =
     (case sqlMax (map r_height (blocks d)) of
        None \<Rightarrow> 0
      | Some maxHeight \<Rightarrow> if maxHeight \<noteq> 0 then maxHeight else 0)"

text \<open>
  \<^verbatim>\<open>CONCAT(tx_id, '_', output_index)\<close> and the reference \<^verbatim>\<open>`${i.txId}_${i.index}`\<close>. The
  code splices the references into the statement between quotes; identifiers are taken to be
  free of the quote character, so that the list \<^verbatim>\<open>IN (...)\<close> is the list of the references.
\<close>

definition refKey :: "string \<Rightarrow> int \<Rightarrow> string" where
  "refKey t i = t @ ''_'' @ toString i"

definition selectUtxos :: "db \<Rightarrow> string list \<Rightarrow> utxo_row list" where
  "selectUtxos d inputReferences =
     filter (\<lambda>u. refKey (tx_id u) (output_index u) \<in> set inputReferences) (utxos d)"

definition insertBlock :: "db \<Rightarrow> int \<Rightarrow> string \<Rightarrow> string list \<Rightarrow> db option" where
  "insertBlock d h i txIds =
     (if \<not> int4 h \<or> h \<in> set (map r_height (blocks d)) \<or> i \<in> set (map r_id (blocks d))
      then None
      else Some (d\<lparr>blocks := blocks d @ [\<lparr>r_height = h, r_id = i, transaction_ids = txIds\<rparr>]\<rparr>))"

text \<open>The conditional update of one entry; it reports nothing when no row matches.\<close>

definition updateSpent :: "db \<Rightarrow> string \<times> int \<times> string \<Rightarrow> db" where
  "updateSpent d input =
     (case input of (t, i, spenderId) \<Rightarrow>
        d\<lparr>utxos := map (\<lambda>u. if tx_id u = t \<and> output_index u = i \<and> spent_tx_id u = None
                              then u\<lparr>spent_tx_id := Some spenderId\<rparr> else u) (utxos d)\<rparr>)"

record new_utxo =
  n_txId :: string
  n_output_index :: int
  n_address :: string
  n_value :: rat
  n_block_height :: int

fun insertUtxos :: "utxo_row list \<Rightarrow> new_utxo list \<Rightarrow> utxo_row list option" where
  "insertUtxos tab [] = Some tab"
| "insertUtxos tab (u # us) =
     (case numeric_20_8 (n_value u) of
        None \<Rightarrow> None
      | Some v \<Rightarrow>
          if \<not> int4 (n_output_index u) \<or> \<not> int4 (n_block_height u)
             \<or> (n_txId u, n_output_index u) \<in> set (map (\<lambda>r. (tx_id r, output_index r)) tab)
          then None
          else insertUtxos
                 (tab @ [\<lparr>tx_id = n_txId u, output_index = n_output_index u,
                           address = n_address u, u_value = v,
                           block_height = n_block_height u, spent_tx_id = None\<rparr>]) us)"

section \<open>processBlock\<close>

text \<open>
  The loop over \<^verbatim>\<open>tx.inputs\<close>: find the row of the input among the selected rows, reject a
  missing row and a spent one, add the value, stage the spend.
\<close>

fun checkInputs ::
  "utxo_row list \<Rightarrow> string \<Rightarrow> Input list \<Rightarrow> rat \<times> (string \<times> int \<times> string) list
     \<Rightarrow> error + rat \<times> (string \<times> int \<times> string) list" where
  "checkInputs rows spender [] acc = Inr acc"
| "checkInputs rows spender (input # rest) (txInputsValue, inputsToSpend) =
     (case find (\<lambda>r. tx_id r = txId input \<and> output_index r = index input) rows of
        None \<Rightarrow> Inl MissingUtxo
      | Some utxo \<Rightarrow>
          if spent_tx_id utxo \<noteq> None then Inl AlreadySpent
          else checkInputs rows spender rest
                 (txInputsValue + parseValue (Some (u_value utxo)),
                  inputsToSpend @ [(txId input, index input, spender)]))"

definition resolveInputs ::
  "db \<Rightarrow> Transaction \<Rightarrow> (string \<times> int \<times> string) list
     \<Rightarrow> error + rat \<times> (string \<times> int \<times> string) list" where
  "resolveInputs d tx inputsToSpend =
     (if length (inputs tx) > 0 then
        (let inputReferences = map (\<lambda>i. refKey (txId i) (index i)) (inputs tx);
             rows = selectUtxos d inputReferences
         in if length rows \<noteq> length (inputs tx) then Inl MissingUtxo
            else checkInputs rows (t_id tx) (inputs tx) (0, inputsToSpend))
      else Inr (0, inputsToSpend))"

text \<open>The \<^verbatim>\<open>forEach\<close> over \<^verbatim>\<open>tx.outputs\<close>: add the value, stage the new entry.\<close>

definition stageOutputs :: "int \<Rightarrow> Transaction \<Rightarrow> new_utxo list \<Rightarrow> rat \<times> new_utxo list" where
  "stageOutputs h tx newUtxos =
     foldl (\<lambda>(txOutputsValue, staged) (i, output).
              (txOutputsValue + parseValue (Some (o_value output)),
               staged @ [\<lparr>n_txId = t_id tx, n_output_index = int i,
                           n_address = o_address output, n_value = o_value output,
                           n_block_height = h\<rparr>]))
       (0, newUtxos) (enumerate 0 (outputs tx))"

text \<open>One turn of the loop over \<^verbatim>\<open>block.transactions\<close>.\<close>

definition processTx ::
  "db \<Rightarrow> int \<Rightarrow> (string \<times> int \<times> string) list \<times> new_utxo list \<Rightarrow> Transaction
     \<Rightarrow> error + (string \<times> int \<times> string) list \<times> new_utxo list" where
  "processTx d h acc tx =
     (case resolveInputs d tx (fst acc) of
        Inl e \<Rightarrow> Inl e
      | Inr (txInputsValue, inputsToSpend) \<Rightarrow>
          (case stageOutputs h tx (snd acc) of
             (txOutputsValue, newUtxos) \<Rightarrow>
               if length (inputs tx) > 0 \<and> toFixed8 txInputsValue \<noteq> toFixed8 txOutputsValue
               then Inl ValueMismatch
               else Inr (inputsToSpend, newUtxos)))"

fun processTxs ::
  "db \<Rightarrow> int \<Rightarrow> (string \<times> int \<times> string) list \<times> new_utxo list \<Rightarrow> Transaction list
     \<Rightarrow> error + (string \<times> int \<times> string) list \<times> new_utxo list" where
  "processTxs d h acc [] = Inr acc"
| "processTxs d h acc (tx # txs) =
     (case processTx d h acc tx of
        Inl e \<Rightarrow> Inl e
      | Inr acc' \<Rightarrow> processTxs d h acc' txs)"

text \<open>
  \<^verbatim>\<open>processBlock\<close> runs inside the transaction its caller opened. The result is the state
  of the tables when it returns or throws, and what it threw.
\<close>

definition processBlock :: "db \<Rightarrow> Block \<Rightarrow> db \<times> (error + unit)" where
  "processBlock d block =
     (let currentHeight = getCurrentHeight d in
      if b_height block \<noteq> currentHeight + 1 then (d, Inl InvalidHeight)
      else
        let txIds = map t_id (transactions block);
            expectedHash = calculateBlockHash (b_height block) txIds in
        if b_id block \<noteq> expectedHash then (d, Inl InvalidHash)
        else
          case processTxs d (b_height block) ([], []) (transactions block) of
            Inl e \<Rightarrow> (d, Inl e)
          | Inr (inputsToSpend, newUtxos) \<Rightarrow>
              (case insertBlock d (b_height block) (b_id block) txIds of
                 None \<Rightarrow> (d, Inl StorageError)
               | Some d1 \<Rightarrow>
                   let d2 = foldl updateSpent d1 inputsToSpend in
                   if length newUtxos > 0 then
                     (case insertUtxos (utxos d2) newUtxos of
                        None \<Rightarrow> (d2, Inl StorageError)
                      | Some tab \<Rightarrow> (d2\<lparr>utxos := tab\<rparr>, Inr ()))
                   else (d2, Inr ())))"

section \<open>rollbackToHeight\<close>

definition rollbackToHeight :: "db \<Rightarrow> int \<Rightarrow> db \<times> (error + int list)" where
  "rollbackToHeight d targetHeight =
     (let currentHeight = getCurrentHeight d in
      if targetHeight \<ge> currentHeight then (d, Inr [])
      else if targetHeight < 0 then (d, Inl NegativeTarget)
      else
        let txIdsInRolledBackBlocks =
              concat (map transaction_ids (filter (\<lambda>r. r_height r > targetHeight) (blocks d)));
            d1 = (if length txIdsInRolledBackBlocks > 0
                  then d\<lparr>utxos := map (\<lambda>u. if spent_tx_id u \<in> Some ` set txIdsInRolledBackBlocks
                                              then u\<lparr>spent_tx_id := None\<rparr> else u) (utxos d)\<rparr>
                  else d);
            d2 = d1\<lparr>utxos := filter (\<lambda>u. \<not> block_height u > targetHeight) (utxos d1)\<rparr>;
            deleted = filter (\<lambda>r. r_height r > targetHeight) (blocks d2);
            d3 = d2\<lparr>blocks := filter (\<lambda>r. \<not> r_height r > targetHeight) (blocks d2)\<rparr>
        in (d3, Inr (map r_height deleted)))"

section \<open>The request handlers\<close>

text \<open>
  \<^verbatim>\<open>POST /blocks\<close>: a block without an id is refused before the transaction opens;
  otherwise BEGIN, \<^verbatim>\<open>processBlock\<close>, then COMMIT, or ROLLBACK to the state at BEGIN
  when it threw.
\<close>

datatype block_reply =
    BlockIndexed int
  | BlockRejected error
  | BlockMalformed

definition postBlocks :: "db \<Rightarrow> Block \<Rightarrow> db \<times> block_reply" where
  "postBlocks d block =
     (if b_id block = [] then (d, BlockMalformed)
      else case processBlock d block of
             (d', Inr _) \<Rightarrow> (d', BlockIndexed (b_height block))
           | (d', Inl e) \<Rightarrow> (d, BlockRejected e))"

text \<open>\<^verbatim>\<open>POST /rollback\<close>, for a height that is a number.\<close>

datatype rollback_reply =
    Unchanged
  | RolledBack "int list"
  | RollbackRejected error

definition postRollback :: "db \<Rightarrow> int \<Rightarrow> db \<times> rollback_reply" where
  "postRollback d targetHeight =
     (case rollbackToHeight d targetHeight of
        (d', Inr rolledBackHeights) \<Rightarrow>
          (d', if length rolledBackHeights = 0 then Unchanged else RolledBack rolledBackHeights)
      | (d', Inl e) \<Rightarrow> (d, RollbackRejected e))"

text \<open>\<^verbatim>\<open>GET /balance/:address\<close>: SUM is NULL over no rows, COALESCE makes it 0.\<close>

definition sqlSum :: "rat list \<Rightarrow> rat option" where
  "sqlSum vs = (if vs = [] then None else Some (sum_list vs))"

definition getBalance :: "db \<Rightarrow> string \<Rightarrow> rat" where
  "getBalance d a =
     (let balance = (case sqlSum (map u_value
                                   (filter (\<lambda>u. address u = a \<and> spent_tx_id u = None) (utxos d))) of
                       None \<Rightarrow> 0 | Some summed \<Rightarrow> summed)
      in parseValue (Some balance))"

text \<open>The states the two mutating handlers can reach from the empty tables.\<close>

inductive reachable :: "db \<Rightarrow> bool" where
  reachable_empty: "reachable emptyDb"
| reachable_block: "reachable d \<Longrightarrow> postBlocks d block = (d', r) \<Longrightarrow> reachable d'"
| reachable_rollback: "reachable d \<Longrightarrow> postRollback d t = (d', r') \<Longrightarrow> reachable d'"

text \<open>Submitting a list of blocks in order, each of them accepted.\<close>

fun acceptAll :: "db \<Rightarrow> Block list \<Rightarrow> db option" where
  "acceptAll d [] = Some d"
| "acceptAll d (block # rest) =
     (case postBlocks d block of
        (d', BlockIndexed _) \<Rightarrow> acceptAll d' rest
      | _ \<Rightarrow> None)"

section \<open>Notions of the statements\<close>

text \<open>The primary key of an entry, and the pair an input names.\<close>

definition pkey :: "utxo_row \<Rightarrow> string \<times> int" where
  "pkey u = (tx_id u, output_index u)"

definition inputRef :: "Input \<Rightarrow> string \<times> int" where
  "inputRef i = (txId i, index i)"

text \<open>The row an input names in a table, its stored value (0 when there is none), and the two
  totals of a transaction: the stored values of its inputs, its output values as declared.\<close>

definition findRow :: "utxo_row list \<Rightarrow> Input \<Rightarrow> utxo_row option" where
  "findRow rows input = find (\<lambda>r. tx_id r = txId input \<and> output_index r = index input) rows"

definition inputValue :: "utxo_row list \<Rightarrow> Input \<Rightarrow> rat" where
  "inputValue rows input = (case findRow rows input of None \<Rightarrow> 0 | Some u \<Rightarrow> u_value u)"



text \<open>A byte as two hexadecimal digits in lower case; a text of decimal digits read back as a
  number.\<close>

definition hexByte :: "byte \<Rightarrow> string" where
  "hexByte b = [digitChar (unat b div 16), digitChar (unat b mod 16)]"

definition digitVal :: "char \<Rightarrow> nat" where
  "digitVal c = of_char c - 48"

definition fromDigits :: "string \<Rightarrow> nat" where
  "fromDigits s = foldl (\<lambda>a c. 10 * a + digitVal c) 0 s"

text \<open>The recorded heights are \<open>1, \<dots>, currentHeight\<close>, each once; every stored value is at 8
  fractional digits.\<close>

definition heightsContiguous :: "db \<Rightarrow> bool" where
  "heightsContiguous d \<longleftrightarrow>
     set (map r_height (blocks d)) = {1..getCurrentHeight d} \<and> distinct (map r_height (blocks d))"


section \<open>Notions of the proofs\<close>

text \<open>\<open>spendRel S u u'\<close>: entry \<open>u'\<close> is \<open>u\<close>, or \<open>u\<close> was unspent and \<open>u'\<close> is \<open>u\<close> spent by a
  member of \<open>S\<close>. What the conditional updates of one block do to an entry.\<close>

definition spendRel :: "string set \<Rightarrow> utxo_row \<Rightarrow> utxo_row \<Rightarrow> bool" where
  "spendRel S u u' \<longleftrightarrow>
     u' = u \<or> (spent_tx_id u = None \<and> (\<exists>s\<in>S. u' = u\<lparr>spent_tx_id := Some s\<rparr>))"

text \<open>The invariant of the reachable states.\<close>

definition ledgerInv :: "db \<Rightarrow> bool" where
  "ledgerInv d \<longleftrightarrow>
     heightsContiguous d \<and> distinct (map pkey (utxos d))
     \<and> (\<forall>u\<in>set (utxos d). block_height u \<le> getCurrentHeight d)"

text \<open>The entry staged for an output; the un-spend of a rollback on one entry; the identifiers
  a rollback collects.\<close>

definition stagedOutput :: "int \<Rightarrow> Transaction \<Rightarrow> nat \<times> Output \<Rightarrow> new_utxo" where
  "stagedOutput h tx io =
     \<lparr>n_txId = t_id tx, n_output_index = int (fst io), n_address = o_address (snd io),
      n_value = o_value (snd io), n_block_height = h\<rparr>"

definition unspend :: "string list \<Rightarrow> utxo_row \<Rightarrow> utxo_row" where
  "unspend txIds u = (if spent_tx_id u \<in> Some ` set txIds then u\<lparr>spent_tx_id := None\<rparr> else u)"

definition rolledBackTxIds :: "db \<Rightarrow> int \<Rightarrow> string list" where
  "rolledBackTxIds d t = concat (map transaction_ids (filter (\<lambda>r. r_height r > t) (blocks d)))"

text \<open>
  \<open>extends K T d\<^sub>K d\<close>: the tables \<open>d\<close> are those of \<open>d\<^sub>K\<close> with block rows above height
  \<open>K\<close> added whose transaction identifiers are \<open>T\<close>, entries above \<open>K\<close> added that only
  members of \<open>T\<close> have spent, and entries of \<open>d\<^sub>K\<close> that were unspent possibly spent by a
  member of \<open>T\<close>.
\<close>

definition extends :: "int \<Rightarrow> string set \<Rightarrow> db \<Rightarrow> db \<Rightarrow> bool" where
  "extends K T dK d \<longleftrightarrow>
     (\<exists>rows us new.
        blocks d = blocks dK @ rows \<and> (\<forall>r\<in>set rows. K < r_height r)
        \<and> set (concat (map transaction_ids rows)) = T
        \<and> utxos d = us @ new \<and> list_all2 (spendRel T) (utxos dK) us
        \<and> (\<forall>u\<in>set new. K < block_height u)
        \<and> (\<forall>u\<in>set new. \<forall>s. spent_tx_id u = Some s \<longrightarrow> s \<in> T))"

section \<open>Concrete blocks and tables\<close>

text \<open>The three blocks of the repository's end-to-end test, and the tables after each.\<close>

definition block1 :: Block where
  "block1 = \<lparr>b_id = ''d1582b9e2cac15e170c39ef2e85855ffd7e6a820550a8ca16a2f016d366503dc'',
             b_height = 1,
             transactions = [\<lparr>t_id = ''tx1'', inputs = [],
                              outputs = [\<lparr>o_address = ''addr1'', o_value = 10\<rparr>]\<rparr>]\<rparr>"

definition block2 :: Block where
  "block2 = \<lparr>b_id = ''c4701d0bfd7179e1db6e33e947e6c718bbc4a1ae927300cd1e3bda91a930cba5'',
             b_height = 2,
             transactions = [\<lparr>t_id = ''tx2'', inputs = [\<lparr>txId = ''tx1'', index = 0\<rparr>],
                              outputs = [\<lparr>o_address = ''addr2'', o_value = 4\<rparr>,
                                         \<lparr>o_address = ''addr3'', o_value = 6\<rparr>]\<rparr>]\<rparr>"

definition block3 :: Block where
  "block3 = \<lparr>b_id = ''4e5f22a2abacfaf2dcaaeb1652aec4eb65028d0f831fa435e6b1ee931c6799ec'',
             b_height = 3,
             transactions = [\<lparr>t_id = ''tx3'', inputs = [\<lparr>txId = ''tx2'', index = 1\<rparr>],
                              outputs = [\<lparr>o_address = ''addr4'', o_value = 2\<rparr>,
                                         \<lparr>o_address = ''addr5'', o_value = 2\<rparr>,
                                         \<lparr>o_address = ''addr6'', o_value = 2\<rparr>]\<rparr>]\<rparr>"

definition row1 :: block_row where
  "row1 = \<lparr>r_height = 1, r_id = b_id block1, transaction_ids = [''tx1'']\<rparr>"

definition row2 :: block_row where
  "row2 = \<lparr>r_height = 2, r_id = b_id block2, transaction_ids = [''tx2'']\<rparr>"

definition row3 :: block_row where
  "row3 = \<lparr>r_height = 3, r_id = b_id block3, transaction_ids = [''tx3'']\<rparr>"

definition entry :: "string \<Rightarrow> int \<Rightarrow> string \<Rightarrow> rat \<Rightarrow> int \<Rightarrow> string option \<Rightarrow> utxo_row" where
  "entry t i a v h s =
     \<lparr>tx_id = t, output_index = i, address = a, u_value = v, block_height = h, spent_tx_id = s\<rparr>"

definition ledger1 :: db where
  "ledger1 = \<lparr>blocks = [row1], utxos = [entry ''tx1'' 0 ''addr1'' 10 1 None]\<rparr>"

definition ledger2 :: db where
  "ledger2 = \<lparr>blocks = [row1, row2],
              utxos = [entry ''tx1'' 0 ''addr1'' 10 1 (Some ''tx2''),
                       entry ''tx2'' 0 ''addr2'' 4 2 None,
                       entry ''tx2'' 1 ''addr3'' 6 2 None]\<rparr>"

definition ledger3 :: db where
  "ledger3 = \<lparr>blocks = [row1, row2, row3],
              utxos = [entry ''tx1'' 0 ''addr1'' 10 1 (Some ''tx2''),
                       entry ''tx2'' 0 ''addr2'' 4 2 None,
                       entry ''tx2'' 1 ''addr3'' 6 2 (Some ''tx3''),
                       entry ''tx3'' 0 ''addr4'' 2 3 None,
                       entry ''tx3'' 1 ''addr5'' 2 3 None,
                       entry ''tx3'' 2 ''addr6'' 2 3 None]\<rparr>"

text \<open>The sixth test of the end-to-end test: a block for height 4 that spends \<open>tx2:1\<close> again.\<close>

definition test6Block :: Block where
  "test6Block =
     \<lparr>b_id = calculateBlockHash 4 [''tx4_double_spend''], b_height = 4,
      transactions = [\<lparr>t_id = ''tx4_double_spend'', inputs = [\<lparr>txId = ''tx2'', index = 1\<rparr>],
                       outputs = [\<lparr>o_address = ''hacker'', o_value = 6\<rparr>]\<rparr>]\<rparr>"

text \<open>The second test of the end-to-end test: block 1 under a wrong id.\<close>

definition wrongHashBlock :: Block where
  "wrongHashBlock = block1\<lparr>b_id := ''totally_wrong_hash''\<rparr>"

text \<open>A first block whose two transactions have the same identifier: its bulk insert collides
  on \<open>(a, 0)\<close> after the block row is written.\<close>

definition clashBlock :: Block where
  "clashBlock =
     \<lparr>b_id = calculateBlockHash 1 [''a'', ''a''], b_height = 1,
      transactions = [\<lparr>t_id = ''a'', inputs = [], outputs = [\<lparr>o_address = ''x'', o_value = 1\<rparr>]\<rparr>,
                      \<lparr>t_id = ''a'', inputs = [], outputs = [\<lparr>o_address = ''x'', o_value = 1\<rparr>]\<rparr>]\<rparr>"




definition doubleSpendBlock :: Block where
  "doubleSpendBlock =
     \<lparr>b_id = b_id block2, b_height = 2,
      transactions = [\<lparr>t_id = ''t'', inputs = [\<lparr>txId = ''tx1'', index = 0\<rparr>],
                       outputs = [\<lparr>o_address = ''a'', o_value = 10\<rparr>]\<rparr>,
                      \<lparr>t_id = ''x2'', inputs = [\<lparr>txId = ''tx1'', index = 0\<rparr>],
                       outputs = [\<lparr>o_address = ''b'', o_value = 10\<rparr>]\<rparr>]\<rparr>"

definition doubleSpentLedger :: db where
  "doubleSpentLedger =
     \<lparr>blocks = [row1, \<lparr>r_height = 2, r_id = b_id block2, transaction_ids = [''t'', ''x2'']\<rparr>],
      utxos = [entry ''tx1'' 0 ''addr1'' 10 1 (Some ''t''),
               entry ''t'' 0 ''a'' 10 2 None,
               entry ''x2'' 0 ''b'' 10 2 None]\<rparr>"










section \<open>Lemmas\<close>

subsection \<open>Current height\<close>

lemma sqlMax_Max: "sqlMax xs = (if xs = [] then None else Some (Max (set xs)))"
proof (induction xs)
  case Nil
  show ?case by simp
next
  case (Cons x xs)
  show ?case
  proof (cases "xs = []")
    case True
    then show ?thesis by simp
  next
    case False
    with Cons show ?thesis by (simp add: max.commute)
  qed
qed

lemma getCurrentHeight_Max:
  "getCurrentHeight d = (if blocks d = [] then 0 else Max (set (map r_height (blocks d))))"
  by (simp add: getCurrentHeight_def sqlMax_Max)

lemma heightsContiguous_nonneg: "heightsContiguous d \<Longrightarrow> 0 \<le> getCurrentHeight d"
proof -
  assume h: "heightsContiguous d"
  show ?thesis
  proof (cases "blocks d = []")
    case True
    then show ?thesis by (simp add: getCurrentHeight_Max)
  next
    case False
    then obtain x where "x \<in> set (map r_height (blocks d))" by (cases "blocks d") auto
    with h have "x \<in> {1..getCurrentHeight d}" by (simp add: heightsContiguous_def)
    then show ?thesis by simp
  qed
qed

subsection \<open>Which errors processBlock raises\<close>

lemma checkInputs_errors:
  "checkInputs rows s ins acc = Inl e \<Longrightarrow> e = MissingUtxo \<or> e = AlreadySpent"
  by (induction rows s ins acc rule: checkInputs.induct)
     (auto split: option.splits if_splits)

lemma resolveInputs_errors:
  "resolveInputs d tx sp = Inl e \<Longrightarrow> e = MissingUtxo \<or> e = AlreadySpent"
  by (auto simp: resolveInputs_def Let_def split: if_splits dest: checkInputs_errors)

lemma processTx_errors:
  "processTx d h acc tx = Inl e \<Longrightarrow> e = MissingUtxo \<or> e = AlreadySpent \<or> e = ValueMismatch"
  by (auto simp: processTx_def split: sum.splits prod.splits if_splits dest: resolveInputs_errors)

lemma processTxs_errors:
  "processTxs d h acc txs = Inl e \<Longrightarrow> e = MissingUtxo \<or> e = AlreadySpent \<or> e = ValueMismatch"
  by (induction txs arbitrary: acc) (auto split: sum.splits dest: processTx_errors)

lemma processBlock_InvalidHeight:
  "snd (processBlock d block) = Inl InvalidHeight \<longleftrightarrow> b_height block \<noteq> getCurrentHeight d + 1"
  by (auto simp: processBlock_def Let_def split: sum.splits prod.splits option.splits if_splits
           dest: processTxs_errors)

lemma processBlock_Inr_height:
  "processBlock d block = (d', Inr u) \<Longrightarrow> b_height block = getCurrentHeight d + 1"
  by (auto simp: processBlock_def Let_def split: sum.splits prod.splits option.splits if_splits)


subsection \<open>Spending and inserting entries\<close>

lemma spendRel_refl: "spendRel S u u"
  by (simp add: spendRel_def)

lemma spendRel_trans: "spendRel S u v \<Longrightarrow> spendRel S v w \<Longrightarrow> spendRel S u w"
  by (auto simp: spendRel_def)

lemma spendRel_mono: "S \<subseteq> T \<Longrightarrow> spendRel S u v \<Longrightarrow> spendRel T u v"
  by (auto simp: spendRel_def)

lemma spendRel_pkey: "spendRel S u v \<Longrightarrow> pkey v = pkey u \<and> block_height v = block_height u"
  by (auto simp: spendRel_def pkey_def)

lemma spendRel_value: "spendRel S u v \<Longrightarrow> u_value v = u_value u"
  by (auto simp: spendRel_def)

lemma list_all2_spendRel_value:
  "list_all2 (spendRel S) us vs \<Longrightarrow> map u_value vs = map u_value us"
  by (induction us vs rule: list_all2_induct) (auto dest: spendRel_value)

lemma rounded_int: "roundHalfAway (of_int n) = n"
proof -
  have "\<lfloor>of_int k + 1 / 2 :: rat\<rfloor> = k" for k :: int
    by (rule floor_unique) simp_all
  from this [of n] this [of "- n"] show ?thesis
    by (simp add: roundHalfAway_def)
qed

lemma toFixed8_idem: "toFixed8 (toFixed8 x) = toFixed8 x"
  by (simp add: toFixed8_def rounded_int)

lemma numeric_20_8_rounded: "numeric_20_8 x = Some v \<Longrightarrow> toFixed8 v = v"
  by (auto simp: numeric_20_8_def Let_def toFixed8_idem split: if_splits)

lemma list_all2_spendRel_refl: "list_all2 (spendRel S) us us"
  by (simp add: list_all2_refl spendRel_refl)

lemma list_all2_spendRel_trans:
  "list_all2 (spendRel S) us vs \<Longrightarrow> list_all2 (spendRel S) vs ws \<Longrightarrow> list_all2 (spendRel S) us ws"
  using list_all2_trans [of "spendRel S" "spendRel S" "spendRel S"] spendRel_trans by blast

lemma list_all2_spendRel_pkey:
  "list_all2 (spendRel S) us vs \<Longrightarrow> map pkey vs = map pkey us \<and> map block_height vs = map block_height us"
  by (induction us vs rule: list_all2_induct) (auto dest: spendRel_pkey)

lemma updateSpent_blocks: "blocks (updateSpent d x) = blocks d"
  by (cases x) (simp add: updateSpent_def)

lemma foldl_updateSpent_blocks: "blocks (foldl updateSpent d sp) = blocks d"
  by (induction sp arbitrary: d) (simp_all add: updateSpent_blocks)

lemma updateSpent_rel:
  "snd (snd x) \<in> S \<Longrightarrow> list_all2 (spendRel S) (utxos d) (utxos (updateSpent d x))"
  by (cases x) (auto simp: updateSpent_def list_all2_map2 spendRel_def intro!: list_all2_refl)

lemma foldl_updateSpent_rel:
  "\<forall>x\<in>set sp. snd (snd x) \<in> S \<Longrightarrow> list_all2 (spendRel S) (utxos d) (utxos (foldl updateSpent d sp))"
proof (induction sp arbitrary: d)
  case Nil
  show ?case by (simp add: list_all2_spendRel_refl)
next
  case (Cons x sp)
  have "list_all2 (spendRel S) (utxos d) (utxos (updateSpent d x))"
    using Cons.prems by (simp add: updateSpent_rel)
  moreover have "list_all2 (spendRel S) (utxos (updateSpent d x)) (utxos (foldl updateSpent (updateSpent d x) sp))"
    using Cons.prems by (intro Cons.IH) simp
  ultimately show ?case
    by (simp add: list_all2_spendRel_trans)
qed

text \<open>What a successful bulk insert appends.\<close>

lemma insertUtxos_append:
  "insertUtxos tab nu = Some tab' \<Longrightarrow>
     \<exists>new. tab' = tab @ new
           \<and> (\<forall>u\<in>set new. spent_tx_id u = None \<and> block_height u \<in> n_block_height ` set nu)"
proof (induction tab nu arbitrary: tab' rule: insertUtxos.induct)
  case (1 tab)
  then show ?case by simp
next
  case (2 tab u us)
  from "2.prems" obtain v where v: "numeric_20_8 (n_value u) = Some v"
    by (auto split: option.splits)
  let ?row = "\<lparr>tx_id = n_txId u, output_index = n_output_index u, address = n_address u,
               u_value = v, block_height = n_block_height u, spent_tx_id = None\<rparr>"
  from "2.prems" v have ok: "\<not> (\<not> int4 (n_output_index u) \<or> \<not> int4 (n_block_height u)
             \<or> (n_txId u, n_output_index u) \<in> set (map (\<lambda>r. (tx_id r, output_index r)) tab))"
    and rest: "insertUtxos (tab @ [?row]) us = Some tab'"
    by (auto split: if_splits)
  from "2.IH" [OF v ok rest] obtain new where
    new: "tab' = (tab @ [?row]) @ new"
      "\<forall>u\<in>set new. spent_tx_id u = None \<and> block_height u \<in> n_block_height ` set us"
    by blast
  have "tab' = tab @ (?row # new)" using new(1) by simp
  moreover have "\<forall>x\<in>set (?row # new). spent_tx_id x = None \<and> block_height x \<in> n_block_height ` set (u # us)"
    using new(2) by auto
  ultimately show ?case by blast
qed

lemma insertUtxos_distinct:
  "insertUtxos tab nu = Some tab' \<Longrightarrow> distinct (map pkey tab) \<Longrightarrow> distinct (map pkey tab')"
proof (induction tab nu arbitrary: tab' rule: insertUtxos.induct)
  case (1 tab)
  then show ?case by simp
next
  case (2 tab u us)
  from "2.prems" obtain v where v: "numeric_20_8 (n_value u) = Some v"
    by (auto split: option.splits)
  let ?row = "\<lparr>tx_id = n_txId u, output_index = n_output_index u, address = n_address u,
               u_value = v, block_height = n_block_height u, spent_tx_id = None\<rparr>"
  from "2.prems" v have ok: "\<not> (\<not> int4 (n_output_index u) \<or> \<not> int4 (n_block_height u)
             \<or> (n_txId u, n_output_index u) \<in> set (map (\<lambda>r. (tx_id r, output_index r)) tab))"
    and rest: "insertUtxos (tab @ [?row]) us = Some tab'"
    by (auto split: if_splits)
  have "pkey ?row \<notin> set (map pkey tab)"
    using ok by (simp add: pkey_def [abs_def])
  with "2.prems"(2) have "distinct (map pkey (tab @ [?row]))" by simp
  with "2.IH" [OF v ok rest] show ?case .
qed

lemma insertUtxos_rounded:
  "insertUtxos tab nu = Some tab' \<Longrightarrow> \<forall>u\<in>set tab. toFixed8 (u_value u) = u_value u \<Longrightarrow>
     \<forall>u\<in>set tab'. toFixed8 (u_value u) = u_value u"
proof (induction tab nu arbitrary: tab' rule: insertUtxos.induct)
  case (1 tab)
  then show ?case by simp
next
  case (2 tab u us)
  from "2.prems" obtain v where v: "numeric_20_8 (n_value u) = Some v"
    by (auto split: option.splits)
  let ?row = "\<lparr>tx_id = n_txId u, output_index = n_output_index u, address = n_address u,
               u_value = v, block_height = n_block_height u, spent_tx_id = None\<rparr>"
  from "2.prems" v have ok: "\<not> (\<not> int4 (n_output_index u) \<or> \<not> int4 (n_block_height u)
             \<or> (n_txId u, n_output_index u) \<in> set (map (\<lambda>r. (tx_id r, output_index r)) tab))"
    and rest: "insertUtxos (tab @ [?row]) us = Some tab'"
    by (auto split: if_splits)
  have "\<forall>x\<in>set (tab @ [?row]). toFixed8 (u_value x) = u_value x"
    using "2.prems"(2) numeric_20_8_rounded [OF v] by simp
  with "2.IH" [OF v ok rest] show ?case .
qed


subsection \<open>What a transaction stages\<close>

lemma checkInputs_Inr:
  "checkInputs rows s ins (v, sp) = Inr (v', sp') \<Longrightarrow>
     sp' = sp @ map (\<lambda>i. (txId i, index i, s)) ins
     \<and> v' = v + sum_list (map (inputValue rows) ins)
     \<and> (\<forall>i\<in>set ins. \<exists>u. findRow rows i = Some u \<and> spent_tx_id u = None)"
proof (induction ins arbitrary: v sp)
  case Nil
  then show ?case by simp
next
  case (Cons i ins)
  from Cons.prems obtain u where u: "findRow rows i = Some u" "spent_tx_id u = None"
    and rest: "checkInputs rows s ins (v + u_value u, sp @ [(txId i, index i, s)]) = Inr (v', sp')"
    by (auto simp: findRow_def parseValue_def split: option.splits if_splits)
  from Cons.IH [OF rest] u show ?case
    by (simp add: inputValue_def)
qed


lemma foldl_stage:
  "foldl (\<lambda>(txOutputsValue, staged) (i, output).
              (txOutputsValue + parseValue (Some (o_value output)),
               staged @ [\<lparr>n_txId = t_id tx, n_output_index = int i,
                           n_address = o_address output, n_value = o_value output,
                           n_block_height = h\<rparr>])) (v, nu) xs
   = (v + sum_list (map (o_value \<circ> snd) xs), nu @ map (stagedOutput h tx) xs)"
  by (induction xs arbitrary: v nu) (auto simp: parseValue_def stagedOutput_def)

lemma stageOutputs_eq:
  "stageOutputs h tx nu =
     (sum_list (map o_value (outputs tx)), nu @ map (stagedOutput h tx) (enumerate 0 (outputs tx)))"
proof -
  have "map (o_value \<circ> snd) (enumerate 0 (outputs tx)) = map o_value (outputs tx)"
    by (simp add: map_snd_enumerate flip: map_map)
  then show ?thesis
    by (simp add: stageOutputs_def foldl_stage)
qed

lemma processTx_Inr:
  "processTx d h (sp, nu) tx = Inr (sp', nu') \<Longrightarrow>
     sp' = sp @ map (\<lambda>i. (txId i, index i, t_id tx)) (inputs tx)
     \<and> nu' = nu @ map (stagedOutput h tx) (enumerate 0 (outputs tx))"
  by (auto simp: processTx_def resolveInputs_def stageOutputs_eq Let_def
           split: sum.splits prod.splits if_splits dest: checkInputs_Inr)

lemma processTxs_Inr:
  "processTxs d h (sp, nu) txs = Inr (sp', nu') \<Longrightarrow>
     sp' = sp @ concat (map (\<lambda>tx. map (\<lambda>i. (txId i, index i, t_id tx)) (inputs tx)) txs)
     \<and> nu' = nu @ concat (map (\<lambda>tx. map (stagedOutput h tx) (enumerate 0 (outputs tx))) txs)"
proof (induction txs arbitrary: sp nu)
  case Nil
  then show ?case by simp
next
  case (Cons tx txs)
  from Cons.prems obtain sp1 nu1 where
    one: "processTx d h (sp, nu) tx = Inr (sp1, nu1)"
    and rest: "processTxs d h (sp1, nu1) txs = Inr (sp', nu')"
    by (auto split: sum.splits)
  from processTx_Inr [OF one] Cons.IH [OF rest] show ?case by simp
qed

lemma processTxs_spenders:
  "processTxs d h ([], []) txs = Inr (sp, nu) \<Longrightarrow>
     (\<forall>x\<in>set sp. snd (snd x) \<in> t_id ` set txs) \<and> (\<forall>n\<in>set nu. n_block_height n = h)"
  by (drule processTxs_Inr) (auto simp: stagedOutput_def)


subsection \<open>An accepted block\<close>

lemma processBlock_Inr:
  assumes "processBlock d b = (d', Inr u)"
  shows "b_height b = getCurrentHeight d + 1"
    and "b_id b = calculateBlockHash (b_height b) (map t_id (transactions b))"
    and "int4 (b_height b)"
    and "blocks d' = blocks d @ [\<lparr>r_height = b_height b, r_id = b_id b,
                                   transaction_ids = map t_id (transactions b)\<rparr>]"
    and "\<exists>us new. utxos d' = us @ new
           \<and> list_all2 (spendRel (t_id ` set (transactions b))) (utxos d) us
           \<and> (\<forall>x\<in>set new. spent_tx_id x = None \<and> block_height x = b_height b)"
    and "distinct (map pkey (utxos d)) \<Longrightarrow> distinct (map pkey (utxos d'))"
    and "\<forall>x\<in>set (utxos d). toFixed8 (u_value x) = u_value x \<Longrightarrow>
         \<forall>x\<in>set (utxos d'). toFixed8 (u_value x) = u_value x"
proof -
  let ?h = "b_height b"
  let ?ids = "map t_id (transactions b)"
  from assms show h: "?h = getCurrentHeight d + 1"
    by (auto simp: processBlock_def Let_def split: if_splits)
  from assms show i: "b_id b = calculateBlockHash ?h ?ids"
    by (auto simp: processBlock_def Let_def split: if_splits)
  from assms h i obtain sp nu where txs: "processTxs d ?h ([], []) (transactions b) = Inr (sp, nu)"
    by (auto simp: processBlock_def Let_def split: sum.splits)
  from assms h i txs obtain d1 where d1: "insertBlock d ?h (b_id b) ?ids = Some d1"
    by (auto simp: processBlock_def Let_def split: option.splits)
  from d1 show "int4 ?h"
    by (auto simp: insertBlock_def split: if_splits)
  from d1 have d1_eq: "d1 = d\<lparr>blocks := blocks d @ [\<lparr>r_height = ?h, r_id = b_id b, transaction_ids = ?ids\<rparr>]\<rparr>"
    by (auto simp: insertBlock_def split: if_splits)
  let ?d2 = "foldl updateSpent d1 sp"
  from assms h i txs d1 have fin:
    "(nu = [] \<and> d' = ?d2) \<or> (\<exists>tab. insertUtxos (utxos ?d2) nu = Some tab \<and> d' = ?d2\<lparr>utxos := tab\<rparr>)"
    by (auto simp: processBlock_def Let_def split: option.splits if_splits)
  have b2: "blocks ?d2 = blocks d1" by (rule foldl_updateSpent_blocks)
  from fin b2 d1_eq show "blocks d' = blocks d @ [\<lparr>r_height = ?h, r_id = b_id b, transaction_ids = ?ids\<rparr>]"
    by auto
  from processTxs_spenders [OF txs] have
    sp: "\<forall>x\<in>set sp. snd (snd x) \<in> t_id ` set (transactions b)" and nu: "\<forall>n\<in>set nu. n_block_height n = ?h"
    by auto
  have "list_all2 (spendRel (t_id ` set (transactions b))) (utxos d1) (utxos ?d2)"
    using sp by (rule foldl_updateSpent_rel)
  then have rel: "list_all2 (spendRel (t_id ` set (transactions b))) (utxos d) (utxos ?d2)"
    by (simp add: d1_eq)
  from fin show "\<exists>us new. utxos d' = us @ new
           \<and> list_all2 (spendRel (t_id ` set (transactions b))) (utxos d) us
           \<and> (\<forall>x\<in>set new. spent_tx_id x = None \<and> block_height x = ?h)"
  proof
    assume "nu = [] \<and> d' = ?d2"
    then have "utxos d' = utxos ?d2 @ []" by simp
    with rel show ?thesis
      by (intro exI [of _ "utxos ?d2"] exI [of _ "[]"]) simp
  next
    assume "\<exists>tab. insertUtxos (utxos ?d2) nu = Some tab \<and> d' = ?d2\<lparr>utxos := tab\<rparr>"
    then obtain tab where tab: "insertUtxos (utxos ?d2) nu = Some tab" "d' = ?d2\<lparr>utxos := tab\<rparr>"
      by blast
    from insertUtxos_append [OF tab(1)] obtain new where
      new: "tab = utxos ?d2 @ new" "\<forall>x\<in>set new. spent_tx_id x = None \<and> block_height x \<in> n_block_height ` set nu"
      by blast
    from new(2) nu have "\<forall>x\<in>set new. spent_tx_id x = None \<and> block_height x = ?h" by auto
    with new(1) tab(2) rel show ?thesis
      by (intro exI [of _ "utxos ?d2"] exI [of _ new]) simp
  qed
  show "distinct (map pkey (utxos d'))" if dist: "distinct (map pkey (utxos d))"
  proof -
    from list_all2_spendRel_pkey [OF rel] dist have d2dist: "distinct (map pkey (utxos ?d2))"
      by simp
    from fin show ?thesis
    proof
      assume "nu = [] \<and> d' = ?d2"
      with d2dist show ?thesis by simp
    next
      assume "\<exists>tab. insertUtxos (utxos ?d2) nu = Some tab \<and> d' = ?d2\<lparr>utxos := tab\<rparr>"
      then obtain tab where tab: "insertUtxos (utxos ?d2) nu = Some tab" "d' = ?d2\<lparr>utxos := tab\<rparr>"
        by blast
      from insertUtxos_distinct [OF tab(1) d2dist] tab(2) show ?thesis by simp
    qed
  qed
  show "\<forall>x\<in>set (utxos d'). toFixed8 (u_value x) = u_value x"
    if rd: "\<forall>x\<in>set (utxos d). toFixed8 (u_value x) = u_value x"
  proof -
    have "u_value ` set (utxos ?d2) = u_value ` set (utxos d)"
      using list_all2_spendRel_value [OF rel] by (metis set_map)
    with rd have rd2: "\<forall>x\<in>set (utxos ?d2). toFixed8 (u_value x) = u_value x"
      by (metis imageE image_eqI)
    from fin show ?thesis
    proof
      assume "nu = [] \<and> d' = ?d2"
      with rd2 show ?thesis by simp
    next
      assume "\<exists>tab. insertUtxos (utxos ?d2) nu = Some tab \<and> d' = ?d2\<lparr>utxos := tab\<rparr>"
      then obtain tab where tab: "insertUtxos (utxos ?d2) nu = Some tab" "d' = ?d2\<lparr>utxos := tab\<rparr>"
        by blast
      from insertUtxos_rounded [OF tab(1) rd2] tab(2) show ?thesis by simp
    qed
  qed
qed

lemma postBlocks_Indexed:
  "postBlocks d b = (d', BlockIndexed h) \<Longrightarrow> processBlock d b = (d', Inr ()) \<and> h = b_height b"
  by (auto simp: postBlocks_def split: if_splits prod.splits sum.splits)

lemma postBlocks_not_Indexed:
  "postBlocks d b = (d', r) \<Longrightarrow> (\<forall>h. r \<noteq> BlockIndexed h) \<Longrightarrow> d' = d"
  by (auto simp: postBlocks_def split: if_splits prod.splits sum.splits)

lemma getCurrentHeight_append:
  assumes "heightsContiguous d" and "blocks d' = blocks d @ [row]" and "r_height row = getCurrentHeight d + 1"
  shows "getCurrentHeight d' = getCurrentHeight d + 1" and "heightsContiguous d'"
proof -
  let ?c = "getCurrentHeight d"
  have c0: "0 \<le> ?c" using assms(1) by (rule heightsContiguous_nonneg)
  have hs: "set (map r_height (blocks d)) = {1..?c}" and di: "distinct (map r_height (blocks d))"
    using assms(1) by (simp_all add: heightsContiguous_def)
  have "set (map r_height (blocks d')) = insert (?c + 1) {1..?c}"
    using assms(2,3) hs by simp
  also have "\<dots> = {1..?c + 1}" using c0 by auto
  finally have hs': "set (map r_height (blocks d')) = {1..?c + 1}" .
  have "blocks d' \<noteq> []" using assms(2) by simp
  then have "getCurrentHeight d' = Max (set (map r_height (blocks d')))"
    by (simp add: getCurrentHeight_Max)
  also have "\<dots> = Max {1..?c + 1}" by (simp only: hs')
  also have "\<dots> = ?c + 1" using c0 by (intro Max_eqI) auto
  finally show c': "getCurrentHeight d' = ?c + 1" .
  have "?c + 1 \<notin> set (map r_height (blocks d))" using hs by simp
  with di assms(2,3) have "distinct (map r_height (blocks d'))" by simp
  with hs' c' show "heightsContiguous d'" by (simp add: heightsContiguous_def)
qed

lemma ledgerInv_postBlocks:
  assumes "ledgerInv d" and "postBlocks d b = (d', r)"
  shows "ledgerInv d'"
proof (cases "\<exists>h. r = BlockIndexed h")
  case False
  with assms(2) have "d' = d" by (auto dest: postBlocks_not_Indexed)
  with assms(1) show ?thesis by simp
next
  case True
  then obtain h where "r = BlockIndexed h" ..
  with assms(2) have pb: "processBlock d b = (d', Inr ())" by (simp add: postBlocks_Indexed)
  note facts = processBlock_Inr [OF pb]
  have hc: "heightsContiguous d" and di: "distinct (map pkey (utxos d))"
    and le: "\<forall>u\<in>set (utxos d). block_height u \<le> getCurrentHeight d"
    using assms(1) by (simp_all add: ledgerInv_def)
  have c': "getCurrentHeight d' = getCurrentHeight d + 1" and hc': "heightsContiguous d'"
    using getCurrentHeight_append [OF hc facts(4)] facts(1) by simp_all
  from facts(5) obtain us new where
    us: "utxos d' = us @ new" "list_all2 (spendRel (t_id ` set (transactions b))) (utxos d) us"
      "\<forall>x\<in>set new. spent_tx_id x = None \<and> block_height x = b_height b"
    by blast
  have "map block_height us = map block_height (utxos d)"
    using list_all2_spendRel_pkey [OF us(2)] by simp
  then have "set (map block_height us) = set (map block_height (utxos d))" by simp
  then have "block_height ` set us = block_height ` set (utxos d)" by simp
  with le have "\<forall>u\<in>set us. block_height u \<le> getCurrentHeight d"
    by (metis imageE image_eqI)
  with us(1,3) facts(1) c' have "\<forall>u\<in>set (utxos d'). block_height u \<le> getCurrentHeight d'"
    by auto
  with hc' facts(6) [OF di] show ?thesis by (simp add: ledgerInv_def)
qed


subsection \<open>Rollback\<close>

lemma unspend_Nil: "unspend [] u = u"
  by (simp add: unspend_def)

lemma unspend_fields: "pkey (unspend T u) = pkey u" "block_height (unspend T u) = block_height u"
  by (simp_all add: unspend_def pkey_def)

lemma rollbackToHeight_noop:
  "getCurrentHeight d \<le> t \<Longrightarrow> rollbackToHeight d t = (d, Inr [])"
  by (simp add: rollbackToHeight_def)

lemma rollbackToHeight_negative:
  "t < getCurrentHeight d \<Longrightarrow> t < 0 \<Longrightarrow> rollbackToHeight d t = (d, Inl NegativeTarget)"
  by (simp add: rollbackToHeight_def)

lemma rollbackToHeight_down:
  assumes "t < getCurrentHeight d" and "0 \<le> t"
  shows "rollbackToHeight d t =
           (\<lparr>blocks = filter (\<lambda>r. \<not> r_height r > t) (blocks d),
             utxos = filter (\<lambda>u. \<not> block_height u > t) (map (unspend (rolledBackTxIds d t)) (utxos d))\<rparr>,
            Inr (map r_height (filter (\<lambda>r. r_height r > t) (blocks d))))"
proof -
  have "map (unspend []) (utxos d) = utxos d"
    by (simp add: unspend_Nil [abs_def])
  then show ?thesis
    using assms
    by (cases "rolledBackTxIds d t = []")
       (simp_all add: rollbackToHeight_def Let_def rolledBackTxIds_def [symmetric] unspend_def [abs_def])
qed

lemma heights_after_rollback:
  assumes "heightsContiguous d" and "t < getCurrentHeight d" and "0 \<le> t"
    and "blocks d' = filter (\<lambda>r. \<not> r_height r > t) (blocks d)"
  shows "getCurrentHeight d' = t" and "heightsContiguous d'"
proof -
  have hs: "set (map r_height (blocks d)) = {1..getCurrentHeight d}"
    and di: "distinct (map r_height (blocks d))"
    using assms(1) by (simp_all add: heightsContiguous_def)
  have "set (map r_height (blocks d')) = {h \<in> set (map r_height (blocks d)). \<not> h > t}"
    using assms(4) by auto
  also have "\<dots> = {1..t}" using hs assms(2) by auto
  finally have hs': "set (map r_height (blocks d')) = {1..t}" .
  show c': "getCurrentHeight d' = t"
  proof (cases "t = 0")
    case True
    with hs' have "blocks d' = []" by simp
    with True show ?thesis by (simp add: getCurrentHeight_Max)
  next
    case False
    with assms(3) have t1: "1 \<le> t" by simp
    with hs' have "blocks d' \<noteq> []" by auto
    then have "getCurrentHeight d' = Max (set (map r_height (blocks d')))"
      by (simp add: getCurrentHeight_Max)
    also have "\<dots> = Max {1..t}" by (simp only: hs')
    also have "\<dots> = t" using t1 by (intro Max_eqI) auto
    finally show ?thesis .
  qed
  have "distinct (map r_height (blocks d'))"
    using di assms(4) by (simp add: distinct_map_filter)
  with hs' c' show "heightsContiguous d'" by (simp add: heightsContiguous_def)
qed

lemma ledgerInv_rollbackToHeight:
  assumes "ledgerInv d" and "rollbackToHeight d t = (d', r)"
  shows "ledgerInv d'"
proof -
  have hc: "heightsContiguous d" and di: "distinct (map pkey (utxos d))"
    using assms(1) by (simp_all add: ledgerInv_def)
  consider "getCurrentHeight d \<le> t" | "t < getCurrentHeight d" "t < 0" | "t < getCurrentHeight d" "0 \<le> t"
    by linarith
  then show ?thesis
  proof cases
    case 1
    with assms show ?thesis by (simp add: rollbackToHeight_noop)
  next
    case 2
    with assms show ?thesis by (simp add: rollbackToHeight_negative)
  next
    case 3
    from assms(2) rollbackToHeight_down [OF 3] have
      b': "blocks d' = filter (\<lambda>r. \<not> r_height r > t) (blocks d)"
      and u': "utxos d' = filter (\<lambda>u. \<not> block_height u > t) (map (unspend (rolledBackTxIds d t)) (utxos d))"
      by auto
    note h = heights_after_rollback [OF hc 3 b']
    have "map pkey (map (unspend (rolledBackTxIds d t)) (utxos d)) = map pkey (utxos d)"
      by (simp add: unspend_fields)
    with di have "distinct (map pkey (map (unspend (rolledBackTxIds d t)) (utxos d)))"
      by (simp only:)
    then have "distinct (map pkey (utxos d'))"
      unfolding u' by (rule distinct_map_filter)
    moreover have "\<forall>u\<in>set (utxos d'). block_height u \<le> getCurrentHeight d'"
      using u' h(1) by auto
    ultimately show ?thesis using h(2) by (simp add: ledgerInv_def)
  qed
qed

lemma postRollback_state:
  "postRollback d t = (d', r) \<Longrightarrow> d' = d \<or> (\<exists>hs. rollbackToHeight d t = (d', Inr hs))"
  by (auto simp: postRollback_def split: prod.splits sum.splits)

lemma ledgerInv_postRollback:
  "ledgerInv d \<Longrightarrow> postRollback d t = (d', r) \<Longrightarrow> ledgerInv d'"
  by (auto dest: postRollback_state ledgerInv_rollbackToHeight)

subsection \<open>The invariant of the reachable states\<close>

lemma ledgerInv_emptyDb: "ledgerInv emptyDb"
  by (simp add: ledgerInv_def heightsContiguous_def emptyDb_def getCurrentHeight_def)

lemma reachable_ledgerInv: "reachable d \<Longrightarrow> ledgerInv d"
  by (induction rule: reachable.induct)
     (auto intro: ledgerInv_emptyDb ledgerInv_postBlocks ledgerInv_postRollback)

subsection \<open>Decimal text and reference keys\<close>

lemma digitVal_digitChar: "n < 10 \<Longrightarrow> digitVal (digitChar n) = n"
  by (simp add: digitVal_def digitChar_def)

lemma fromDigits_snoc: "fromDigits (s @ [c]) = 10 * fromDigits s + digitVal c"
  by (simp add: fromDigits_def)

lemma fromDigits_natToString: "fromDigits (natToString 10 n) = n"
proof (induction "10 :: nat" n rule: natToString.induct)
  case (1 n)
  show ?case
  proof (cases "n < 10")
    case True
    then show ?thesis
      by (simp add: natToString.simps [of 10 n] fromDigits_def digitVal_digitChar)
  next
    case False
    with 1 have "fromDigits (natToString 10 (n div 10)) = n div 10" by simp
    with False show ?thesis
      by (simp add: natToString.simps [of 10 n] fromDigits_snoc digitVal_digitChar)
  qed
qed












subsection \<open>Resolving inputs\<close>



lemma findRow_Some: "findRow rows i = Some u \<Longrightarrow> u \<in> set rows \<and> pkey u = inputRef i"
  by (auto simp: findRow_def pkey_def inputRef_def find_Some_iff)









subsection \<open>The text of a block identifier\<close>

lemma digitChar_values:
  "digitChar 0 = CHR ''0''" "digitChar 1 = CHR ''1''" "digitChar 2 = CHR ''2''"
  "digitChar 3 = CHR ''3''" "digitChar 4 = CHR ''4''" "digitChar 5 = CHR ''5''"
  "digitChar 6 = CHR ''6''" "digitChar 7 = CHR ''7''" "digitChar 8 = CHR ''8''"
  "digitChar 9 = CHR ''9''" "digitChar 10 = CHR ''a''" "digitChar 11 = CHR ''b''"
  "digitChar 12 = CHR ''c''" "digitChar 13 = CHR ''d''" "digitChar 14 = CHR ''e''"
  "digitChar 15 = CHR ''f''" "digitChar (Suc 0) = CHR ''1''"
  by (simp_all add: digitChar_def char_of_def bit_Suc_0_iff)

lemma padStart_hex: "padStart 2 (CHR ''0'') (natToString 16 (unat (b :: byte))) = hexByte b"
proof -
  have "unat b < 2 ^ LENGTH(8)" by (rule unsigned_less)
  then have lt: "unat b < 256" by simp
  show ?thesis
  proof (cases "unat b < 16")
    case True
    then show ?thesis
      by (simp add: natToString.simps [of 16 "unat b"] padStart_def hexByte_def digitChar_values)
  next
    case False
    moreover have "unat b div 16 < 16" using lt by simp
    ultimately show ?thesis
      by (simp add: natToString.simps [of 16 "unat b"] natToString.simps [of 16 "unat b div 16"]
          padStart_def hexByte_def)
  qed
qed

lemma calculateBlockHash_hex:
  "calculateBlockHash h ids = concat (map hexByte (sha256 (encode (toString h @ concat ids))))"
  by (simp add: calculateBlockHash_def Let_def padStart_hex)

lemma length_sha256_round: "length (sha256_round s kw) = length s"
  by (simp add: sha256_round_def Let_def split: list.splits)

lemma length_foldl_round: "length (foldl sha256_round s kws) = length s"
  by (induction kws arbitrary: s) (simp_all add: length_sha256_round)

lemma length_sha256_block: "length (sha256_block hs bl) = length hs"
  by (simp add: sha256_block_def length_foldl_round)

lemma length_foldl_block: "length (foldl sha256_block hs bls) = length hs"
  by (induction bls arbitrary: hs) (simp_all add: length_sha256_block)

lemma length_concat_const: "\<forall>x\<in>set xs. length (f x) = k \<Longrightarrow> length (concat (map f xs)) = k * length xs"
  by (induction xs) simp_all

lemma length_sha256: "length (sha256 m) = 32"
proof -
  have "length (foldl sha256_block sha256_init bls) = 8" for bls
    by (simp add: length_foldl_block sha256_init_def)
  then show ?thesis
    by (simp add: sha256_def Let_def length_concat_const [where k = 4] be_bytes_def)
qed

lemma length_calculateBlockHash: "length (calculateBlockHash h ids) = 64"
  by (simp add: calculateBlockHash_hex length_concat_const [where k = 2] hexByte_def length_sha256)

lemma calculateBlockHash_nonempty: "calculateBlockHash h ids \<noteq> []"
  using length_calculateBlockHash [of h ids] by auto

lemma digitChar_hex: "d < 16 \<Longrightarrow> digitChar d \<in> set ''0123456789abcdef''"
proof -
  assume "d < 16"
  then have "d = 0 \<or> d = 1 \<or> d = 2 \<or> d = 3 \<or> d = 4 \<or> d = 5 \<or> d = 6 \<or> d = 7 \<or> d = 8
      \<or> d = 9 \<or> d = 10 \<or> d = 11 \<or> d = 12 \<or> d = 13 \<or> d = 14 \<or> d = 15"
    by presburger
  then show ?thesis
    by (auto simp: digitChar_values)
qed

lemma hexByte_chars: "set (hexByte b) \<subseteq> set ''0123456789abcdef''"
proof -
  have "unat b < 2 ^ LENGTH(8)" by (rule unsigned_less)
  then have "unat b < 256" by simp
  then have "unat b div 16 < 16" "unat b mod 16 < 16" by simp_all
  then show ?thesis
    unfolding hexByte_def using digitChar_hex by (simp del: set_simps(2) add: list.set)
qed

lemma calculateBlockHash_chars: "set (calculateBlockHash h ids) \<subseteq> set ''0123456789abcdef''"
  unfolding calculateBlockHash_hex using hexByte_chars by (auto simp del: set_simps)

subsection \<open>Heights under the two handlers\<close>

lemma rollbackToHeight_cases:
  assumes "rollbackToHeight d t = (d', r)"
  obtains (noop) "getCurrentHeight d \<le> t" "d' = d" "r = Inr []"
    | (negative) "t < getCurrentHeight d" "t < 0" "d' = d" "r = Inl NegativeTarget"
    | (down) "t < getCurrentHeight d" "0 \<le> t"
        "blocks d' = filter (\<lambda>r. \<not> r_height r > t) (blocks d)"
        "utxos d' = filter (\<lambda>u. \<not> block_height u > t) (map (unspend (rolledBackTxIds d t)) (utxos d))"
        "r = Inr (map r_height (filter (\<lambda>r. r_height r > t) (blocks d)))"
proof -
  consider "getCurrentHeight d \<le> t" | "t < getCurrentHeight d" "t < 0" | "t < getCurrentHeight d" "0 \<le> t"
    by linarith
  then show thesis
  proof cases
    case 1
    with assms have "d' = d" "r = Inr []" by (simp_all add: rollbackToHeight_noop)
    with 1 show ?thesis by (rule noop)
  next
    case 2
    with assms have "d' = d" "r = Inl NegativeTarget" by (simp_all add: rollbackToHeight_negative)
    with 2 show ?thesis by (rule negative)
  next
    case 3
    from assms rollbackToHeight_down [OF 3] have
      "d' = \<lparr>blocks = filter (\<lambda>r. \<not> r_height r > t) (blocks d),
             utxos = filter (\<lambda>u. \<not> block_height u > t) (map (unspend (rolledBackTxIds d t)) (utxos d))\<rparr>"
      and "r = Inr (map r_height (filter (\<lambda>r. r_height r > t) (blocks d)))"
      by simp_all
    then have "blocks d' = filter (\<lambda>r. \<not> r_height r > t) (blocks d)"
      and "utxos d' = filter (\<lambda>u. \<not> block_height u > t) (map (unspend (rolledBackTxIds d t)) (utxos d))"
      and "r = Inr (map r_height (filter (\<lambda>r. r_height r > t) (blocks d)))"
      by simp_all
    with 3 show ?thesis by (rule down)
  qed
qed


lemma heightsContiguous_postBlocks:
  assumes "heightsContiguous d" and "postBlocks d b = (d', r)"
  shows "heightsContiguous d'"
proof (cases "\<exists>h. r = BlockIndexed h")
  case False
  with assms(2) have "d' = d" by (auto dest: postBlocks_not_Indexed)
  with assms(1) show ?thesis by simp
next
  case True
  then obtain h where "r = BlockIndexed h" ..
  with assms(2) have pb: "processBlock d b = (d', Inr ())" by (simp add: postBlocks_Indexed)
  from getCurrentHeight_append(2) [OF assms(1) processBlock_Inr(4) [OF pb]] processBlock_Inr(1) [OF pb]
  show ?thesis by simp
qed

lemma heightsContiguous_rollbackToHeight:
  assumes "heightsContiguous d" and "rollbackToHeight d t = (d', r)"
  shows "heightsContiguous d'" and "getCurrentHeight d' \<le> getCurrentHeight d"
proof -
  from assms(2) have "heightsContiguous d' \<and> getCurrentHeight d' \<le> getCurrentHeight d"
  proof (cases rule: rollbackToHeight_cases)
    case noop
    with assms(1) show ?thesis by simp
  next
    case negative
    with assms(1) show ?thesis by simp
  next
    case down
    from heights_after_rollback [OF assms(1) down(1,2,3)] down(1) show ?thesis by simp
  qed
  then show "heightsContiguous d'" and "getCurrentHeight d' \<le> getCurrentHeight d" by simp_all
qed

lemma heightsContiguous_postRollback:
  "heightsContiguous d \<Longrightarrow> postRollback d t = (d', r) \<Longrightarrow> heightsContiguous d'"
  by (auto dest: postRollback_state heightsContiguous_rollbackToHeight(1))

lemma fromDigits_toString: "0 \<le> h \<Longrightarrow> fromDigits (toString h) = nat h"
  by (simp add: toString_def fromDigits_natToString)



subsection \<open>Stored values\<close>





subsection \<open>Input and output totals\<close>





subsection \<open>Rollback after a run of accepted blocks\<close>

lemma extends_refl: "extends K {} d d"
  unfolding extends_def
  by (intro exI [of _ "[]"] exI [of _ "utxos d"]) (simp add: list_all2_spendRel_refl)

lemma list_all2_spendRel_mono:
  "S \<subseteq> T \<Longrightarrow> list_all2 (spendRel S) us vs \<Longrightarrow> list_all2 (spendRel T) us vs"
  by (erule list_all2_mono) (rule spendRel_mono)

lemma spenders_spendRel:
  "list_all2 (spendRel S) us vs \<Longrightarrow> \<forall>u\<in>set us. \<forall>s. spent_tx_id u = Some s \<longrightarrow> s \<in> T \<Longrightarrow>
     \<forall>v\<in>set vs. \<forall>s. spent_tx_id v = Some s \<longrightarrow> s \<in> T \<union> S"
  by (induction us vs rule: list_all2_induct) (auto simp: spendRel_def)

lemma extends_step:
  assumes "extends K T dK d" and "processBlock d b = (d', Inr ())" and "K \<le> getCurrentHeight d"
  shows "extends K (T \<union> t_id ` set (transactions b)) dK d'"
proof -
  let ?S = "t_id ` set (transactions b)"
  from assms(1) obtain rows us new where
    e: "blocks d = blocks dK @ rows" "\<forall>r\<in>set rows. K < r_height r"
      "set (concat (map transaction_ids rows)) = T"
      "utxos d = us @ new" "list_all2 (spendRel T) (utxos dK) us"
      "\<forall>u\<in>set new. K < block_height u"
      "\<forall>u\<in>set new. \<forall>s. spent_tx_id u = Some s \<longrightarrow> s \<in> T"
    unfolding extends_def by blast
  note f = processBlock_Inr [OF assms(2)]
  let ?row = "\<lparr>r_height = b_height b, r_id = b_id b, transaction_ids = map t_id (transactions b)\<rparr>"
  from f(5) obtain vs new2 where
    v: "utxos d' = vs @ new2" "list_all2 (spendRel ?S) (utxos d) vs"
      "\<forall>x\<in>set new2. spent_tx_id x = None \<and> block_height x = b_height b"
    by blast
  from v(2) e(4) obtain va vb where
    s: "vs = va @ vb" "list_all2 (spendRel ?S) us va" "list_all2 (spendRel ?S) new vb"
    by (auto simp: list_all2_append1)
  have 1: "blocks d' = blocks dK @ (rows @ [?row])"
    using f(4) e(1) by simp
  have 2: "\<forall>r\<in>set (rows @ [?row]). K < r_height r"
    using e(2) f(1) assms(3) by auto
  have 3: "set (concat (map transaction_ids (rows @ [?row]))) = T \<union> ?S"
    using e(3) by auto
  have 4: "utxos d' = va @ (vb @ new2)"
    using v(1) s(1) by simp
  have "list_all2 (spendRel (T \<union> ?S)) (utxos dK) us"
    using e(5) by (rule list_all2_spendRel_mono [rotated]) simp
  moreover have "list_all2 (spendRel (T \<union> ?S)) us va"
    using s(2) by (rule list_all2_spendRel_mono [rotated]) simp
  ultimately have 5: "list_all2 (spendRel (T \<union> ?S)) (utxos dK) va"
    by (rule list_all2_spendRel_trans)
  have "block_height ` set vb = block_height ` set new"
    using list_all2_spendRel_pkey [OF s(3)] by (metis set_map)
  with e(6) have "\<forall>u\<in>set vb. K < block_height u"
    by (metis imageE image_eqI)
  with v(3) f(1) assms(3) have 6: "\<forall>u\<in>set (vb @ new2). K < block_height u"
    by auto
  have "\<forall>u\<in>set vb. \<forall>s. spent_tx_id u = Some s \<longrightarrow> s \<in> T \<union> ?S"
    using s(3) e(7) by (rule spenders_spendRel)
  with v(3) have 7: "\<forall>u\<in>set (vb @ new2). \<forall>s. spent_tx_id u = Some s \<longrightarrow> s \<in> T \<union> ?S"
    by auto
  from 1 2 3 4 5 6 7 show ?thesis
    unfolding extends_def by blast
qed





lemma acceptAll_Cons:
  "acceptAll d (b # bs) = Some dN \<Longrightarrow>
     \<exists>d1. processBlock d b = (d1, Inr ()) \<and> postBlocks d b = (d1, BlockIndexed (b_height b))
          \<and> acceptAll d1 bs = Some dN"
  by (auto split: prod.splits block_reply.splits dest: postBlocks_Indexed)




lemma acceptAll_extends:
  "extends K T dK d \<Longrightarrow> K \<le> getCurrentHeight d \<Longrightarrow> heightsContiguous d \<Longrightarrow>
   acceptAll d bs = Some dN \<Longrightarrow>
     extends K (T \<union> (\<Union>b\<in>set bs. t_id ` set (transactions b))) dK dN"
proof (induction bs arbitrary: d T)
  case Nil
  then show ?case by simp
next
  case (Cons b bs)
  from acceptAll_Cons [OF Cons.prems(4)] obtain d1 where
    d1: "processBlock d b = (d1, Inr ())" "postBlocks d b = (d1, BlockIndexed (b_height b))"
      "acceptAll d1 bs = Some dN" by blast
  have e1: "extends K (T \<union> t_id ` set (transactions b)) dK d1"
    using Cons.prems(1) d1(1) Cons.prems(2) by (rule extends_step)
  have c1: "getCurrentHeight d1 = getCurrentHeight d + 1" and h1: "heightsContiguous d1"
    using getCurrentHeight_append [OF Cons.prems(3) processBlock_Inr(4) [OF d1(1)]]
      processBlock_Inr(1) [OF d1(1)] by simp_all
  from c1 Cons.prems(2) have k1: "K \<le> getCurrentHeight d1" by simp
  from Cons.IH [OF e1 k1 h1 d1(3)] show ?case
    by (simp add: Un_assoc)
qed

lemma heightsContiguous_emptyDb: "heightsContiguous emptyDb"
  using ledgerInv_emptyDb by (simp add: ledgerInv_def)



lemma spenders_of_accepted:
  assumes "acceptAll emptyDb bs = Some d"
  shows "\<forall>u\<in>set (utxos d). \<forall>s. spent_tx_id u = Some s \<longrightarrow>
           s \<in> (\<Union>b\<in>set bs. t_id ` set (transactions b))"
proof -
  let ?T = "\<Union>b\<in>set bs. t_id ` set (transactions b)"
  have "extends 0 ({} \<union> ?T) emptyDb d"
    using extends_refl _ heightsContiguous_emptyDb assms
    by (rule acceptAll_extends) (simp add: emptyDb_def getCurrentHeight_def)
  then obtain us new where "utxos d = us @ new" "list_all2 (spendRel ?T) (utxos emptyDb) us"
    "\<forall>u\<in>set new. \<forall>s. spent_tx_id u = Some s \<longrightarrow> s \<in> ?T"
    unfolding extends_def by auto
  then show ?thesis by (simp add: emptyDb_def)
qed

text \<open>Transaction identifiers that are unique along the chain are never a spender twice.\<close>

lemma unique_ids_not_respent:
  assumes "distinct (concat (map (\<lambda>b. map t_id (transactions b)) bs))"
    and "acceptAll emptyDb (take K bs) = Some dK"
  shows "\<forall>u\<in>set (utxos dK). \<forall>b\<in>set (drop K bs). \<forall>t\<in>set (transactions b).
           spent_tx_id u \<noteq> Some (t_id t)"
proof -
  let ?f = "\<lambda>b. map t_id (transactions b)"
  have "distinct (concat (map ?f (take K bs)) @ concat (map ?f (drop K bs)))"
    using assms(1) by (metis append_take_drop_id concat_append map_append)
  then have dj: "set (concat (map ?f (take K bs))) \<inter> set (concat (map ?f (drop K bs))) = {}"
    by simp
  show ?thesis
  proof (intro ballI notI)
    fix u b t
    assume u: "u \<in> set (utxos dK)" and b: "b \<in> set (drop K bs)" and t: "t \<in> set (transactions b)"
      and sp: "spent_tx_id u = Some (t_id t)"
    from spenders_of_accepted [OF assms(2)] u sp
    have "t_id t \<in> (\<Union>b\<in>set (take K bs). t_id ` set (transactions b))" by blast
    then have "t_id t \<in> set (concat (map ?f (take K bs)))" by auto
    moreover from b t have "t_id t \<in> set (concat (map ?f (drop K bs)))" by auto
    ultimately show False using dj by blast
  qed
qed


section \<open>The end-to-end test, evaluated\<close>

text \<open>
  The ids the test gives its three blocks are the ones \<^const>\<open>calculateBlockHash\<close> computes.
\<close>

lemma hash_1tx1:
  "calculateBlockHash 1 [''tx1''] = ''d1582b9e2cac15e170c39ef2e85855ffd7e6a820550a8ca16a2f016d366503dc''"
  by code_simp

lemma hash_2tx2:
  "calculateBlockHash 2 [''tx2''] = ''c4701d0bfd7179e1db6e33e947e6c718bbc4a1ae927300cd1e3bda91a930cba5''"
  by code_simp

lemma hash_3tx3:
  "calculateBlockHash 3 [''tx3''] = ''4e5f22a2abacfaf2dcaaeb1652aec4eb65028d0f831fa435e6b1ee931c6799ec''"
  by code_simp

text \<open>The id depends on the concatenated text only.\<close>

lemma calculateBlockHash_data:
  "toString h @ concat ids = toString h' @ concat ids' \<Longrightarrow>
     calculateBlockHash h ids = calculateBlockHash h' ids'"
  by (simp add: calculateBlockHash_def)

lemma floor_rat_numeral: "\<lfloor>numeral a / numeral b :: rat\<rfloor> = numeral a div numeral b"
  using floor_divide_of_int_eq [of "numeral a" "numeral b", where ?'a = rat] by simp

text \<open>The facts that evaluate the model on concrete tables and blocks.\<close>

lemmas scenario_defs =
  block1_def block2_def block3_def row1_def row2_def row3_def entry_def
  ledger1_def ledger2_def ledger3_def emptyDb_def

lemmas ledger_eval =
  postBlocks_def processBlock_def getCurrentHeight_def resolveInputs_def stageOutputs_def
  processTx_def insertBlock_def updateSpent_def selectUtxos_def refKey_def toString_def
  natToString.simps digitChar_values parseValue_def toFixed8_def roundHalfAway_def numeric_20_8_def
  int4_def floor_rat_numeral postRollback_def rollbackToHeight_def getBalance_def sqlSum_def enumerate_eq_zip Let_def

lemma accept_block1: "postBlocks emptyDb block1 = (ledger1, BlockIndexed 1)"
  by (simp add: scenario_defs ledger_eval hash_1tx1)

lemma accept_block2: "postBlocks ledger1 block2 = (ledger2, BlockIndexed 2)"
  by (simp add: scenario_defs ledger_eval hash_2tx2)

lemma accept_block3: "postBlocks ledger2 block3 = (ledger3, BlockIndexed 3)"
  by (simp add: scenario_defs ledger_eval hash_3tx3)

lemma rollback_to_2: "postRollback ledger3 2 = (ledger2, RolledBack [3])"
  by (simp add: scenario_defs ledger_eval)

text \<open>The spend of an output that an earlier block has spent is refused.\<close>

lemma test6_double_spend_rejected:
  "postBlocks ledger3 test6Block = (ledger3, BlockRejected AlreadySpent)"
  by (simp add: test6Block_def scenario_defs ledger_eval calculateBlockHash_nonempty)

lemma reachable_ledger1: "reachable ledger1"
  using reachable_block [OF reachable_empty accept_block1] .

lemma reachable_ledger2: "reachable ledger2"
  using reachable_block [OF reachable_ledger1 accept_block2] .

lemma reachable_ledger3: "reachable ledger3"
  using reachable_block [OF reachable_ledger2 accept_block3] .

lemma hash_2_t_x2: "calculateBlockHash 2 [''t'', ''x2''] = b_id block2"
  using calculateBlockHash_data [of 2 "[''t'', ''x2'']" 2 "[''tx2'']"]
  by (simp add: hash_2tx2 block2_def)








lemma accept_doubleSpendBlock:
  "postBlocks ledger1 doubleSpendBlock = (doubleSpentLedger, BlockIndexed 2)"
  by (simp add: doubleSpendBlock_def doubleSpentLedger_def scenario_defs ledger_eval
      hash_2_t_x2 [unfolded block2_def, simplified])

section \<open>The claims\<close>

text \<open>
  C6. Strict successor acceptance: \<^const>\<open>processBlock\<close> throws the height error exactly when
  the height of the block is not the current height plus one, and a block that
  \<^const>\<open>postBlocks\<close> indexes has that height and raises the current height by one.
\<close>

theorem strict_successor_acceptance:
  "(snd (processBlock d block) = Inl InvalidHeight \<longleftrightarrow> b_height block \<noteq> getCurrentHeight d + 1)
   \<and> (postBlocks d block = (d', BlockIndexed h) \<longrightarrow>
        h = b_height block \<and> b_height block = getCurrentHeight d + 1)"
  using processBlock_InvalidHeight [of d block] postBlocks_Indexed [of d block d' h]
    processBlock_Inr(1) [of d block d' "()"]
  by blast

theorem strict_successor_acceptance_witness:
  "snd (processBlock emptyDb (block1\<lparr>b_height := 2\<rparr>)) = Inl InvalidHeight
   \<and> b_height (block1\<lparr>b_height := 2\<rparr>) \<noteq> getCurrentHeight emptyDb + 1
   \<and> postBlocks emptyDb block1 = (ledger1, BlockIndexed 1)
   \<and> b_height block1 = getCurrentHeight emptyDb + 1"
  using strict_successor_acceptance [of emptyDb "block1\<lparr>b_height := 2\<rparr>"]
    strict_successor_acceptance [where d = emptyDb and block = block1 and d' = ledger1 and h = 1]
    accept_block1
  by (simp add: emptyDb_def getCurrentHeight_def)

text \<open>
  C4. Atomicity on failure: when \<^const>\<open>postBlocks\<close> or \<^const>\<open>postRollback\<close> answers with an
  error, whatever the error, the tables are those of before the call, also where
  \<^const>\<open>processBlock\<close> had already written to them when it threw.
\<close>

theorem atomic_on_failure:
  "(postBlocks d block = (d', BlockRejected e) \<longrightarrow> d' = d)
   \<and> (postBlocks d block = (d', BlockMalformed) \<longrightarrow> d' = d)
   \<and> (postRollback d t = (d'', RollbackRejected e') \<longrightarrow> d'' = d)"
  by (auto simp: postBlocks_def postRollback_def split: if_splits prod.splits sum.splits)

theorem atomic_on_failure_witness:
  "fst (processBlock emptyDb clashBlock) \<noteq> emptyDb
   \<and> postBlocks emptyDb clashBlock = (emptyDb, BlockRejected StorageError)
   \<and> postBlocks ledger1 (block2\<lparr>b_id := []\<rparr>) = (ledger1, BlockMalformed)
   \<and> postRollback ledger1 (- 1) = (ledger1, RollbackRejected NegativeTarget)"
proof -
  have 1: "processBlock emptyDb clashBlock
            = (\<lparr>blocks = [\<lparr>r_height = 1, r_id = b_id clashBlock, transaction_ids = [''a'', ''a'']\<rparr>],
                 utxos = []\<rparr>, Inl StorageError)"
    by (simp add: clashBlock_def emptyDb_def ledger_eval)
  then have 2: "postBlocks emptyDb clashBlock = (emptyDb, BlockRejected StorageError)"
    by (simp add: postBlocks_def clashBlock_def calculateBlockHash_nonempty)
  have 3: "postRollback ledger1 (- 1) = (ledger1, RollbackRejected NegativeTarget)"
    by (simp add: scenario_defs ledger_eval)
  from 1 have "fst (processBlock emptyDb clashBlock) \<noteq> emptyDb"
    by (simp add: emptyDb_def)
  moreover have 4: "postBlocks ledger1 (block2\<lparr>b_id := []\<rparr>) = (ledger1, BlockMalformed)"
    by (simp add: postBlocks_def)
  ultimately show ?thesis
    using 2 3 atomic_on_failure [where d = emptyDb and block = clashBlock and d' = emptyDb and e = StorageError]
      atomic_on_failure [where d = ledger1 and block = "block2\<lparr>b_id := []\<rparr>" and d' = ledger1
        and t = "- 1" and d'' = ledger1 and e' = NegativeTarget]
    by simp
qed




text \<open>
  C8. Rollback target bounds, in every reachable state: a negative target is refused with
  \<^const>\<open>NegativeTarget\<close>; a target at or above the current height changes nothing and
  removes no height; and no rollback raises the current height.
\<close>

theorem rollback_target_bounds:
  assumes "reachable d"
  shows "(t < 0 \<longrightarrow> rollbackToHeight d t = (d, Inl NegativeTarget)
                   \<and> postRollback d t = (d, RollbackRejected NegativeTarget))
       \<and> (0 \<le> t \<and> getCurrentHeight d \<le> t \<longrightarrow> rollbackToHeight d t = (d, Inr [])
                   \<and> postRollback d t = (d, Unchanged))
       \<and> (rollbackToHeight d t = (d', r) \<longrightarrow> getCurrentHeight d' \<le> getCurrentHeight d)"
proof -
  have hc: "heightsContiguous d"
    using reachable_ledgerInv [OF assms] by (simp add: ledgerInv_def)
  then have c0: "0 \<le> getCurrentHeight d" by (rule heightsContiguous_nonneg)
  have "t < 0 \<longrightarrow> rollbackToHeight d t = (d, Inl NegativeTarget)"
    using c0 by (simp add: rollbackToHeight_negative)
  moreover have "getCurrentHeight d \<le> t \<longrightarrow> rollbackToHeight d t = (d, Inr [])"
    by (simp add: rollbackToHeight_noop)
  moreover have "rollbackToHeight d t = (d', r) \<longrightarrow> getCurrentHeight d' \<le> getCurrentHeight d"
    using heightsContiguous_rollbackToHeight(2) [OF hc] by blast
  ultimately show ?thesis by (simp add: postRollback_def)
qed

theorem rollback_target_bounds_witness:
  "reachable ledger3
   \<and> postRollback ledger3 (- 1) = (ledger3, RollbackRejected NegativeTarget)
   \<and> getCurrentHeight ledger3 \<le> 3 \<and> postRollback ledger3 3 = (ledger3, Unchanged)
   \<and> postRollback ledger3 7 = (ledger3, Unchanged)
   \<and> rollbackToHeight ledger3 2 = (ledger2, Inr [3]) \<and> getCurrentHeight ledger2 \<le> getCurrentHeight ledger3"
proof -
  have c: "getCurrentHeight ledger3 = 3" "getCurrentHeight ledger2 = 2"
    by (simp_all add: scenario_defs getCurrentHeight_def)
  have r: "rollbackToHeight ledger3 2 = (ledger2, Inr [3])"
    by (simp add: scenario_defs ledger_eval)
  from rollback_target_bounds [OF reachable_ledger3, of "- 1"]
    rollback_target_bounds [OF reachable_ledger3, of 3]
    rollback_target_bounds [OF reachable_ledger3, of 7]
    rollback_target_bounds [OF reachable_ledger3, where t = 2 and d' = ledger2 and r = "Inr [3]"]
    reachable_ledger3 c r
  show ?thesis by simp
qed


text \<open>
  C5. Height contiguity: in every reachable state the recorded heights are exactly
  \<open>1, \<dots>, currentHeight\<close>, each once, and the current height is 0 when no block is
  recorded; \<^const>\<open>postBlocks\<close> and \<^const>\<open>postRollback\<close> each preserve this.
\<close>

theorem height_contiguity:
  "(reachable d \<longrightarrow>
      set (map r_height (blocks d)) = {1..getCurrentHeight d}
      \<and> distinct (map r_height (blocks d))
      \<and> (blocks d = [] \<longrightarrow> getCurrentHeight d = 0))
   \<and> (heightsContiguous d \<and> postBlocks d block = (d', r) \<longrightarrow> heightsContiguous d')
   \<and> (heightsContiguous d \<and> postRollback d t = (d'', r') \<longrightarrow> heightsContiguous d'')"
proof -
  have "reachable d \<longrightarrow> heightsContiguous d"
    using reachable_ledgerInv [of d] by (simp add: ledgerInv_def)
  moreover have "blocks d = [] \<longrightarrow> getCurrentHeight d = 0"
    by (simp add: getCurrentHeight_Max)
  ultimately show ?thesis
    using heightsContiguous_postBlocks [of d block d' r] heightsContiguous_postRollback [of d t d'' r']
    by (simp add: heightsContiguous_def)
qed

theorem height_contiguity_witness:
  "reachable ledger3
   \<and> set (map r_height (blocks ledger3)) = {1..getCurrentHeight ledger3}
   \<and> heightsContiguous ledger2 \<and> postBlocks ledger2 block3 = (ledger3, BlockIndexed 3)
   \<and> heightsContiguous ledger3 \<and> postRollback ledger3 1 = (ledger1, RolledBack [2, 3])
   \<and> heightsContiguous ledger1
   \<and> blocks emptyDb = [] \<and> getCurrentHeight emptyDb = 0"
proof -
  have r: "postRollback ledger3 1 = (ledger1, RolledBack [2, 3])"
    by (simp add: scenario_defs ledger_eval)
  have e: "blocks emptyDb = []" by (simp add: emptyDb_def)
  from height_contiguity [of ledger2] reachable_ledger2 have h2: "heightsContiguous ledger2"
    unfolding heightsContiguous_def by blast
  from height_contiguity [of ledger3] reachable_ledger3
  have s3: "set (map r_height (blocks ledger3)) = {1..getCurrentHeight ledger3}" by blast
  from height_contiguity [where d = ledger2 and block = block3 and d' = ledger3 and r = "BlockIndexed 3"]
    h2 accept_block3
  have h3: "heightsContiguous ledger3" by blast
  from height_contiguity [where d = ledger3 and t = 1 and d'' = ledger1 and r' = "RolledBack [2, 3]"]
    h3 r
  have h1: "heightsContiguous ledger1" by blast
  from height_contiguity [of emptyDb] reachable_empty e
  have c0: "getCurrentHeight emptyDb = 0" by blast
  from reachable_ledger3 s3 h2 accept_block3 h3 r h1 e c0 show ?thesis by blast
qed

text \<open>
  C7. Block identity: \<^const>\<open>calculateBlockHash\<close> is the two lower-case hexadecimal digits
  of each byte of the SHA-256 digest of the bytes of the decimal text of the height followed
  by the transaction identifiers in order, 64 characters in all; and a block whose declared
  id is not this text is thrown out by \<^const>\<open>processBlock\<close> with the tables untouched, with
  \<^const>\<open>InvalidHash\<close> when its height is the successor height.
\<close>

theorem block_identity:
  "calculateBlockHash h ids = concat (map hexByte (sha256 (encode (toString h @ concat ids))))
   \<and> length (calculateBlockHash h ids) = 64
   \<and> set (calculateBlockHash h ids) \<subseteq> set ''0123456789abcdef''
   \<and> (0 \<le> h \<longrightarrow> fromDigits (toString h) = nat h)
   \<and> (b_id block \<noteq> calculateBlockHash (b_height block) (map t_id (transactions block)) \<longrightarrow>
        fst (processBlock d block) = d
        \<and> (snd (processBlock d block) = Inl InvalidHeight \<or> snd (processBlock d block) = Inl InvalidHash)
        \<and> (b_height block = getCurrentHeight d + 1 \<longrightarrow> processBlock d block = (d, Inl InvalidHash))
        \<and> fst (postBlocks d block) = d
        \<and> (\<forall>k. snd (postBlocks d block) \<noteq> BlockIndexed k))"
proof -
  have "b_id block \<noteq> calculateBlockHash (b_height block) (map t_id (transactions block)) \<longrightarrow>
        fst (processBlock d block) = d
        \<and> (snd (processBlock d block) = Inl InvalidHeight \<or> snd (processBlock d block) = Inl InvalidHash)
        \<and> (b_height block = getCurrentHeight d + 1 \<longrightarrow> processBlock d block = (d, Inl InvalidHash))"
    by (simp add: processBlock_def Let_def)
  moreover have "b_id block \<noteq> calculateBlockHash (b_height block) (map t_id (transactions block)) \<longrightarrow>
        fst (postBlocks d block) = d \<and> (\<forall>k. snd (postBlocks d block) \<noteq> BlockIndexed k)"
    by (auto simp: postBlocks_def processBlock_def Let_def)
  ultimately show ?thesis
    using calculateBlockHash_hex [of h ids] length_calculateBlockHash [of h ids]
      calculateBlockHash_chars [of h ids] fromDigits_toString [of h]
    by blast
qed

theorem block_identity_witness:
  "calculateBlockHash 1 [''tx1''] = ''d1582b9e2cac15e170c39ef2e85855ffd7e6a820550a8ca16a2f016d366503dc''
   \<and> length (calculateBlockHash 1 [''tx1'']) = 64
   \<and> fromDigits (toString 1) = 1
   \<and> b_id wrongHashBlock \<noteq> calculateBlockHash (b_height wrongHashBlock) (map t_id (transactions wrongHashBlock))
   \<and> b_height wrongHashBlock = getCurrentHeight emptyDb + 1
   \<and> processBlock emptyDb wrongHashBlock = (emptyDb, Inl InvalidHash)
   \<and> postBlocks emptyDb wrongHashBlock = (emptyDb, BlockRejected InvalidHash)"
proof -
  have ne: "b_id wrongHashBlock \<noteq> calculateBlockHash (b_height wrongHashBlock) (map t_id (transactions wrongHashBlock))"
    by (simp add: wrongHashBlock_def block1_def hash_1tx1)
  have h: "b_height wrongHashBlock = getCurrentHeight emptyDb + 1"
    by (simp add: wrongHashBlock_def block1_def emptyDb_def getCurrentHeight_def)
  from block_identity [where h = 1 and ids = "[''tx1'']" and block = wrongHashBlock and d = emptyDb] ne h
  have p: "processBlock emptyDb wrongHashBlock = (emptyDb, Inl InvalidHash)" by blast
  then have q: "postBlocks emptyDb wrongHashBlock = (emptyDb, BlockRejected InvalidHash)"
    by (simp add: postBlocks_def wrongHashBlock_def)
  note inst = block_identity [where h = 1 and ids = "[''tx1'']" and block = wrongHashBlock and d = emptyDb]
  from inst have l: "length (calculateBlockHash 1 [''tx1'']) = 64" by blast
  have "(0::int) \<le> 1" by simp
  with inst have "fromDigits (toString 1) = nat 1" by blast
  then have "fromDigits (toString 1) = 1" by simp
  with hash_1tx1 ne h p q l show ?thesis by blast
qed









text \<open>
  C1, at the failing input: after block 1 of the test, a block at height 2 whose two
  transactions both spend \<open>tx1:0\<close>, each paying its 10 to a new address, is indexed. The second
  conditional update matches no row and nothing looks at that; \<open>tx1:0\<close> is spent by the first
  transaction only, and 20 are now spendable where 10 were.
\<close>

theorem same_block_double_spend_indexed:
  "postBlocks ledger1 doubleSpendBlock = (doubleSpentLedger, BlockIndexed 2)
   \<and> getBalance ledger1 ''addr1'' = 10
   \<and> getBalance doubleSpentLedger ''addr1'' = 0
   \<and> getBalance doubleSpentLedger ''a'' = 10
   \<and> getBalance doubleSpentLedger ''b'' = 10"
  using accept_doubleSpendBlock
  by (simp add: doubleSpentLedger_def scenario_defs getBalance_def sqlSum_def parseValue_def)

end
